theory Spec2Isabelle
  imports Complex_Main "HOL-Library.Multiset"
begin

text \<open>
  A model of the jsonPTS client: the configuration loader, the envelope codec, the Digest
  authenticator and the protocol client, each function translated from its source, followed
  by the properties of the specification that were checked against them.
\<close>

section \<open>JavaScript values used by the client\<close>

text \<open>
  A string of the source is a sequence of UTF-16 code units. The model has the strings whose
  code units are below 256 (the Latin-1 range, which holds ASCII and in which the values of
  HTTP headers lie): a \<open>char\<close> is one such code unit, and strings with other code units
  are outside the model. Within the range, white space (for \<open>String.prototype.trim\<close>,
  \<open>parseInt\<close> and the regular-expression class \<open>\s\<close>) is TAB, LF, VT, FF, CR, SPACE and
  the no-break space U+00A0, and the line terminators are LF and CR.
\<close>

definition isWhite :: "char \<Rightarrow> bool" where
  "isWhite c \<longleftrightarrow>
     c \<in> {CHR 0x09, CHR 0x0A, CHR 0x0B, CHR 0x0C, CHR 0x0D, CHR '' '', CHR 0xA0}"

definition isLineTerminator :: "char \<Rightarrow> bool" where
  "isLineTerminator c \<longleftrightarrow> c = CHR 0x0A \<or> c = CHR 0x0D"

definition trimStart :: "string \<Rightarrow> string" where
  "trimStart s = dropWhile isWhite s"

definition trim :: "string \<Rightarrow> string" where
  "trim s = rev (dropWhile isWhite (rev (dropWhile isWhite s)))"

text \<open>
  Case conversion in the range: the letters A-Z and U+00C0-U+00DE (without the
  multiplication sign U+00D7) and their lower-case forms, 32 code units higher.
  \<open>toUpperCase\<close> turns the sharp s U+00DF into \<open>SS\<close>. The upper-case forms of U+00B5 and
  U+00FF lie outside the range; the model keeps these two characters, and the source only
  compares an upper-cased string with ASCII words, which does not tell the difference.
\<close>

definition upperLetters :: string where
  "upperLetters = ''ABCDEFGHIJKLMNOPQRSTUVWXYZ'' @
     [CHR 0xC0, CHR 0xC1, CHR 0xC2, CHR 0xC3, CHR 0xC4, CHR 0xC5, CHR 0xC6, CHR 0xC7,
      CHR 0xC8, CHR 0xC9, CHR 0xCA, CHR 0xCB, CHR 0xCC, CHR 0xCD, CHR 0xCE, CHR 0xCF,
      CHR 0xD0, CHR 0xD1, CHR 0xD2, CHR 0xD3, CHR 0xD4, CHR 0xD5, CHR 0xD6, CHR 0xD8,
      CHR 0xD9, CHR 0xDA, CHR 0xDB, CHR 0xDC, CHR 0xDD, CHR 0xDE]"

definition lowerLetters :: string where
  "lowerLetters = ''abcdefghijklmnopqrstuvwxyz'' @
     [CHR 0xE0, CHR 0xE1, CHR 0xE2, CHR 0xE3, CHR 0xE4, CHR 0xE5, CHR 0xE6, CHR 0xE7,
      CHR 0xE8, CHR 0xE9, CHR 0xEA, CHR 0xEB, CHR 0xEC, CHR 0xED, CHR 0xEE, CHR 0xEF,
      CHR 0xF0, CHR 0xF1, CHR 0xF2, CHR 0xF3, CHR 0xF4, CHR 0xF5, CHR 0xF6, CHR 0xF8,
      CHR 0xF9, CHR 0xFA, CHR 0xFB, CHR 0xFC, CHR 0xFD, CHR 0xFE]"

definition lowerChar :: "char \<Rightarrow> char" where
  "lowerChar c = (case map_of (zip upperLetters lowerLetters) c of Some d \<Rightarrow> d | None \<Rightarrow> c)"

definition upperChar :: "char \<Rightarrow> char" where
  "upperChar c = (case map_of (zip lowerLetters upperLetters) c of Some d \<Rightarrow> d | None \<Rightarrow> c)"

definition upperChars :: "char \<Rightarrow> string" where
  "upperChars c = (if c = CHR 0xDF then ''SS'' else [upperChar c])"

definition toLowerCase :: "string \<Rightarrow> string" where
  "toLowerCase s = map lowerChar s"

definition toUpperCase :: "string \<Rightarrow> string" where
  "toUpperCase s = concat (map upperChars s)"

definition startsWith :: "string \<Rightarrow> string \<Rightarrow> bool" where
  "startsWith s p \<longleftrightarrow> take (length p) s = p"

definition endsWith :: "string \<Rightarrow> string \<Rightarrow> bool" where
  "endsWith s p \<longleftrightarrow> length p \<le> length s \<and> drop (length s - length p) s = p"

text \<open>\<open>s.includes(sub)\<close>: \<open>sub\<close> occurs in \<open>s\<close> as a contiguous substring.\<close>

fun includesStr :: "string \<Rightarrow> string \<Rightarrow> bool" where
  "includesStr [] sub = (sub = [])"
| "includesStr (c # cs) sub = (take (length sub) (c # cs) = sub \<or> includesStr cs sub)"

text \<open>\<open>parts.join(sep)\<close> on an array of strings.\<close>

fun join :: "string \<Rightarrow> string list \<Rightarrow> string" where
  "join sep [] = []"
| "join sep [x] = x"
| "join sep (x # y # ys) = x @ sep @ join sep (y # ys)"

text \<open>
  \<open>s.split(",")\<close>: the pieces between the separating character; the empty string gives
  one empty piece (the result is never empty, the first case of the inner \<open>case\<close> is
  there for totality).
\<close>

fun splitOn :: "char \<Rightarrow> string \<Rightarrow> string list" where
  "splitOn d [] = [[]]"
| "splitOn d (c # cs) =
     (case splitOn d cs of
        [] \<Rightarrow> (if c = d then [[], []] else [[c]])
      | p # ps \<Rightarrow> (if c = d then [] # p # ps else (c # p) # ps))"

subsection \<open>Numbers\<close>

text \<open>
  A JavaScript number is an IEEE double. Every finite double is a rational, so the model
  keeps finite numbers as exact rationals and has the three special values beside them.
  Negative zero is identified with zero (the source only compares and subtracts ids, which
  does not tell them apart).
\<close>

datatype jsnum = Fin rat | PInf | NInf | NaN

fun isFinite :: "jsnum \<Rightarrow> bool" where
  "isFinite (Fin q) = True"
| "isFinite PInf = False"
| "isFinite NInf = False"
| "isFinite NaN = False"

definition isDigit :: "char \<Rightarrow> bool" where
  "isDigit c \<longleftrightarrow> c \<in> set ''0123456789''"

definition digitVal :: "char \<Rightarrow> nat" where
  "digitVal c = (case map_of (zip ''0123456789'' [0, 1, 2, 3, 4, 5, 6, 7, 8, 9]) c of Some d \<Rightarrow> d | None \<Rightarrow> 0)"

definition decimalValue :: "string \<Rightarrow> nat" where
  "decimalValue ds = foldl (\<lambda>acc c. 10 * acc + digitVal c) 0 ds"

fun bitLength :: "nat \<Rightarrow> nat" where
  "bitLength n = (if n = 0 then 0 else Suc (bitLength (n div 2)))"

declare bitLength.simps [simp del]

text \<open>
  The Number value for a mathematical integer: exact below \<open>2^53\<close>, otherwise rounded to
  53 significant bits (ties to even), and infinite from \<open>2^1024\<close> on.
\<close>

definition roundToDouble :: "bool \<Rightarrow> nat \<Rightarrow> jsnum" where
  "roundToDouble neg a =
     (if a < 2 ^ 53 then Fin (if neg then - of_nat a else of_nat a)
      else
        let e = bitLength a - 53;
            q = a div 2 ^ e;
            r = a mod 2 ^ e;
            q' = (if 2 * r > 2 ^ e \<or> (2 * r = 2 ^ e \<and> odd q) then q + 1 else q);
            v = q' * 2 ^ e
        in if v \<ge> 2 ^ 1024 then (if neg then NInf else PInf)
           else Fin (if neg then - of_nat v else of_nat v))"

text \<open>
  \<open>Number.parseInt(s, 10)\<close>: leading white space is skipped, one sign is read, then the
  longest run of decimal digits; no digit gives \<open>NaN\<close>. Anything after the digits is
  ignored.
\<close>

definition jsParseInt :: "string \<Rightarrow> jsnum" where
  "jsParseInt s =
     (let t = trimStart s;
          neg = (t \<noteq> [] \<and> hd t = CHR ''-'');
          u = (if t \<noteq> [] \<and> (hd t = CHR ''-'' \<or> hd t = CHR ''+'') then tl t else t);
          ds = takeWhile isDigit u
      in if ds = [] then NaN else roundToDouble neg (decimalValue ds))"

section \<open>Configuration (config.ts)\<close>

text \<open>
  The process environment is a partial map from variable names to strings. The fields
  \<open>security\<close> and \<open>auth\<close> are the two-valued enumerations of the schema.
\<close>

type_synonym env = "string \<rightharpoonup> string"

datatype security = Http | Https
datatype auth = Basic | Digest

record Pts2Config =
  host :: string
  security :: security
  httpPort :: int
  httpsPort :: int
  auth :: auth
  login :: string
  password :: string
  timeoutMs :: int
  tlsInsecure :: bool

datatype config_error = ZodConfigError

definition parseBool :: "string option \<Rightarrow> bool \<Rightarrow> bool" where
  "parseBool v fallback =
     (case v of
        None \<Rightarrow> fallback
      | Some s \<Rightarrow>
          (let norm = toLowerCase (trim s) in
           if norm \<in> set [''1'', ''true'', ''yes'', ''y'', ''on''] then True
           else if norm \<in> set [''0'', ''false'', ''no'', ''n'', ''off''] then False
           else fallback))"

text \<open>
  \<open>parseIntOr\<close>: an absent or empty variable gives the fallback, and so does a value
  that \<open>parseInt\<close> reads as \<open>NaN\<close> or as an infinity. A finite result of \<open>parseInt\<close>
  is an integer.
\<close>

definition parseIntOr :: "string option \<Rightarrow> rat \<Rightarrow> rat" where
  "parseIntOr v fallback =
     (case v of
        None \<Rightarrow> fallback
      | Some s \<Rightarrow>
          if s = [] then fallback
          else (case jsParseInt s of Fin n \<Rightarrow> n | _ \<Rightarrow> fallback))"

text \<open>The enumerations of the schema: any other string is rejected.\<close>

definition zodSecurity :: "string \<Rightarrow> security option" where
  "zodSecurity s = (if s = ''http'' then Some Http else if s = ''https'' then Some Https else None)"

definition zodAuth :: "string \<Rightarrow> auth option" where
  "zodAuth s = (if s = ''basic'' then Some Basic else if s = ''digest'' then Some Digest else None)"

text \<open>
  \<open>z.number().int().positive()\<close>: an integer (in the sense of \<open>Number.isInteger\<close>)
  above zero.
\<close>

definition zodPositiveInt :: "rat \<Rightarrow> int option" where
  "zodPositiveInt q = (if of_int \<lfloor>q\<rfloor> = q \<and> q > 0 then Some \<lfloor>q\<rfloor> else None)"

definition orElse :: "string option \<Rightarrow> string \<Rightarrow> string" where
  "orElse v d = (case v of None \<Rightarrow> d | Some s \<Rightarrow> s)"

text \<open>
  \<open>Pts2ConfigSchema.parse\<close> on the object that \<open>loadPts2ConfigFromEnv\<close> builds: only
  \<open>host\<close> has a minimum length; \<open>login\<close> and \<open>password\<close> are plain strings.
\<close>

definition loadPts2ConfigFromEnv :: "env \<Rightarrow> config_error + Pts2Config" where
  "loadPts2ConfigFromEnv env =
     (let h = orElse (env ''PTS2_HOST'') '''';
          sec = toLowerCase (orElse (env ''PTS2_SECURITY'') ''https'');
          hp = parseIntOr (env ''PTS2_HTTP_PORT'') 80;
          hsp = parseIntOr (env ''PTS2_HTTPS_PORT'') 443;
          au = toLowerCase (orElse (env ''PTS2_AUTH'') ''digest'');
          lg = orElse (env ''PTS2_LOGIN'') '''';
          pw = orElse (env ''PTS2_PASSWORD'') '''';
          tm = parseIntOr (env ''PTS2_TIMEOUT_MS'') 15000;
          tls = parseBool (env ''PTS2_TLS_INSECURE'') True
      in if length h < 1 then Inl ZodConfigError
         else case (zodSecurity sec, zodPositiveInt hp, zodPositiveInt hsp, zodAuth au, zodPositiveInt tm) of
                (Some sec', Some hp', Some hsp', Some au', Some tm') \<Rightarrow>
                  Inr \<lparr> host = h, security = sec', httpPort = hp', httpsPort = hsp', auth = au',
                        login = lg, password = pw, timeoutMs = tm', tlsInsecure = tls \<rparr>
              | _ \<Rightarrow> Inl ZodConfigError)"

section \<open>The envelope codec (jsonpts.ts)\<close>

text \<open>
  \<open>JsonValue\<close>. An object is an association list read with \<open>map_of\<close>: a key is
  looked up by its first binding, and an absent key reads as \<open>undefined\<close> (\<open>None\<close>).
\<close>

datatype json =
    JNull
  | JBool bool
  | JNum jsnum
  | JStr string
  | JArr "json list"
  | JObj "(string \<times> json) list"

text \<open>
  The response packet, and what the codec and the client can throw. The fields of the
  response carry the suffix \<open>_r\<close> and those of the request the suffix \<open>_q\<close> (\<open>id\<close>,
  \<open>type\<close> and \<open>error\<close> are taken). After the check of \<open>Number.isFinite\<close> the id is a
  finite number. The messages of the source are kept as the data they name: the two counts
  of a count mismatch, the index and the id of an id mismatch, the packet of a packet error.
\<close>

datatype kind = Network | Timeout

record JsonPtsPacketResponse =
  id_r :: rat
  type_r :: "string option"
  error_r :: bool
  code_r :: "jsnum option"
  message_r :: "string option"
  data_r :: "json option"

datatype error =
    ZodError
  | ProtocolMismatch string
  | MissingId
  | TypeError
  | NotDigestChallenge
  | NoWwwAuthenticate
  | Pts2TransportError kind string
  | BodyReadError
  | HttpStatusError nat
  | NonJsonResponse
  | SyntaxError
  | PacketCountMismatch nat nat
  | PacketIdMismatch nat rat
  | JsonPtsPacketError JsonPtsPacketResponse

record JsonPtsPacketRequest =
  type_q :: string
  data_q :: "json option"

text \<open>
  The operations of the language runtime and of \<open>node:crypto\<close> that the source calls
  and that are not part of this repository are parameters of the model: the decimal
  form of a number (\<open>String(n)\<close>), the two hex digests and base64.
\<close>

record runtime =
  numToString :: "jsnum \<Rightarrow> string"
  md5 :: "string \<Rightarrow> string"
  sha256 :: "string \<Rightarrow> string"
  base64 :: "string \<Rightarrow> string"

text \<open>
  \<open>String(v)\<close> on a JSON value. An array is joined with commas, \<open>null\<close> elements
  giving the empty string. An object without an own \<open>toString\<close> key gives
  \<open>[object Object]\<close>; with one, the key holds a JSON value, which is not callable, and
  the conversion throws a \<open>TypeError\<close>.
\<close>

fun jsString :: "runtime \<Rightarrow> json \<Rightarrow> error + string"
  and jsStrings :: "runtime \<Rightarrow> json list \<Rightarrow> error + string list" where
  "jsString rt JNull = Inr ''null''"
| "jsString rt (JBool b) = Inr (if b then ''true'' else ''false'')"
| "jsString rt (JNum n) = Inr (numToString rt n)"
| "jsString rt (JStr s) = Inr s"
| "jsString rt (JArr xs) =
     (case jsStrings rt xs of Inl e \<Rightarrow> Inl e | Inr ss \<Rightarrow> Inr (join '','' ss))"
| "jsString rt (JObj kvs) =
     (if map_of kvs ''toString'' = None then Inr ''[object Object]'' else Inl TypeError)"
| "jsStrings rt [] = Inr []"
| "jsStrings rt (x # xs) =
     (case (if x = JNull then Inr [] else jsString rt x) of
        Inl e \<Rightarrow> Inl e
      | Inr s \<Rightarrow> (case jsStrings rt xs of Inl e \<Rightarrow> Inl e | Inr ss \<Rightarrow> Inr (s # ss)))"

text \<open>\<open>buildEnvelope\<close>: the index of a packet is its \<open>Id\<close>.\<close>

definition buildPacket :: "nat \<Rightarrow> JsonPtsPacketRequest \<Rightarrow> json" where
  "buildPacket i p =
     JObj ([(''Id'', JNum (Fin (of_nat i))), (''Type'', JStr (type_q p))]
           @ (case data_q p of None \<Rightarrow> [] | Some d \<Rightarrow> [(''Data'', d)]))"

definition buildEnvelope :: "JsonPtsPacketRequest list \<Rightarrow> json" where
  "buildEnvelope packets =
     JObj [(''Protocol'', JStr ''jsonPTS''),
           (''Packets'', JArr (map (\<lambda>(i, p). buildPacket i p) (enumerate 0 packets)))]"

text \<open>
  \<open>JsonPtsResponseSchema.parse\<close>: the value is an object, \<open>Protocol\<close> is a string and
  \<open>Packets\<close> is an array of objects. It gives the protocol string and the packets, each
  as its association list.
\<close>

fun asRecord :: "json \<Rightarrow> (string \<times> json) list option" where
  "asRecord (JObj kvs) = Some kvs"
| "asRecord _ = None"

definition JsonPtsResponseSchema :: "json \<Rightarrow> error + (string \<times> (string \<times> json) list list)" where
  "JsonPtsResponseSchema raw =
     (case raw of
        JObj kvs \<Rightarrow>
          (case (map_of kvs ''Protocol'', map_of kvs ''Packets'') of
             (Some (JStr proto), Some (JArr ps)) \<Rightarrow>
               (case those (map asRecord ps) of
                  None \<Rightarrow> Inl ZodError
                | Some recs \<Rightarrow> Inr (proto, recs))
           | _ \<Rightarrow> Inl ZodError)
      | _ \<Rightarrow> Inl ZodError)"

text \<open>\<open>v ?? d\<close> followed by \<open>String\<close>: \<open>undefined\<close> and \<open>null\<close> give the default.\<close>

definition stringOrDefault :: "runtime \<Rightarrow> json option \<Rightarrow> string \<Rightarrow> error + string" where
  "stringOrDefault rt v d =
     (case v of None \<Rightarrow> Inr d | Some JNull \<Rightarrow> Inr d | Some j \<Rightarrow> jsString rt j)"

text \<open>The body of the \<open>map\<close> callback of \<open>parseEnvelope\<close>, statement by statement.\<close>

definition parsePacketId :: "runtime \<Rightarrow> (string \<times> json) list \<Rightarrow> error + jsnum" where
  "parsePacketId rt p =
     (case map_of p ''Id'' of
        Some (JNum n) \<Rightarrow> Inr n
      | v \<Rightarrow> (case stringOrDefault rt v [] of Inl e \<Rightarrow> Inl e | Inr s \<Rightarrow> Inr (jsParseInt s)))"

definition parsePacketError :: "runtime \<Rightarrow> (string \<times> json) list \<Rightarrow> error + bool" where
  "parsePacketError rt p =
     (case map_of p ''Error'' of
        Some (JBool b) \<Rightarrow> Inr b
      | v \<Rightarrow> (case stringOrDefault rt v ''false'' of
                Inl e \<Rightarrow> Inl e
              | Inr s \<Rightarrow> Inr (toLowerCase s \<noteq> ''false'')))"

definition optString :: "runtime \<Rightarrow> json option \<Rightarrow> error + string option" where
  "optString rt v =
     (case v of
        None \<Rightarrow> Inr None
      | Some j \<Rightarrow> (case jsString rt j of Inl e \<Rightarrow> Inl e | Inr s \<Rightarrow> Inr (Some s)))"

definition parsePacket :: "runtime \<Rightarrow> (string \<times> json) list \<Rightarrow> error + JsonPtsPacketResponse" where
  "parsePacket rt p =
     (case parsePacketId rt p of
        Inl e \<Rightarrow> Inl e
      | Inr (Fin i) \<Rightarrow>
          (case parsePacketError rt p of
             Inl e \<Rightarrow> Inl e
           | Inr err \<Rightarrow>
          (case optString rt (map_of p ''Type'') of
             Inl e \<Rightarrow> Inl e
           | Inr ty \<Rightarrow>
          (case optString rt (map_of p ''Code'') of
             Inl e \<Rightarrow> Inl e
           | Inr co \<Rightarrow>
          (case optString rt (map_of p ''Message'') of
             Inl e \<Rightarrow> Inl e
           | Inr msg \<Rightarrow>
               Inr \<lparr> id_r = i, type_r = ty, error_r = err, code_r = map_option jsParseInt co,
                     message_r = msg, data_r = map_of p ''Data'' \<rparr>))))
      | Inr _ \<Rightarrow> Inl MissingId)"

text \<open>\<open>Array.prototype.map\<close> with a callback that can throw: the first throw ends it.\<close>

fun mapE :: "('a \<Rightarrow> error + 'b) \<Rightarrow> 'a list \<Rightarrow> error + 'b list" where
  "mapE f [] = Inr []"
| "mapE f (x # xs) =
     (case f x of
        Inl e \<Rightarrow> Inl e
      | Inr y \<Rightarrow> (case mapE f xs of Inl e \<Rightarrow> Inl e | Inr ys \<Rightarrow> Inr (y # ys)))"

text \<open>
  \<open>parseEnvelope\<close>. The ids are finite numbers, on which the comparator \<open>a.id - b.id\<close>
  is the usual order; \<open>Array.prototype.sort\<close> is stable, as \<open>sort_key\<close> is.
\<close>

definition parseEnvelope :: "runtime \<Rightarrow> json \<Rightarrow> error + JsonPtsPacketResponse list" where
  "parseEnvelope rt raw =
     (case JsonPtsResponseSchema raw of
        Inl e \<Rightarrow> Inl e
      | Inr (proto, ps) \<Rightarrow>
          if proto \<noteq> ''jsonPTS'' then Inl (ProtocolMismatch proto)
          else (case mapE (parsePacket rt) ps of
                  Inl e \<Rightarrow> Inl e
                | Inr packets \<Rightarrow> Inr (sort_key id_r packets)))"

section \<open>Digest authentication (digest.ts)\<close>

text \<open>
  \<open>splitAuthParams\<close>: the loop over the characters of the header, with the current
  piece, the quote flag and the pieces pushed so far.
\<close>

fun splitLoop :: "string \<Rightarrow> string \<Rightarrow> bool \<Rightarrow> string list \<Rightarrow> string list \<times> string" where
  "splitLoop [] cur inQuotes out = (out, cur)"
| "splitLoop (ch # rest) cur inQuotes out =
     (let inQuotes' = (if ch = CHR 0x22 then \<not> inQuotes else inQuotes)
      in if ch = CHR '','' \<and> \<not> inQuotes'
         then splitLoop rest [] inQuotes' (out @ [trim cur])
         else splitLoop rest (cur @ [ch]) inQuotes' out)"

definition splitAuthParams :: "string \<Rightarrow> string list" where
  "splitAuthParams header =
     (case splitLoop header [] False [] of
        (out, cur) \<Rightarrow> if trim cur \<noteq> [] then out @ [trim cur] else out)"

text \<open>
  The match of \<open>/^\s*Digest\s+(.*)$/i\<close>: leading white space, the six letters in either
  case, at least one white-space character, and a rest in which the dot finds no line
  terminator up to the end of the input. All the quantifiers are greedy, so the group is
  what follows the longest run of white space. \<open>None\<close> is a failed match.
\<close>

definition matchDigestPrefix :: "string \<Rightarrow> string option" where
  "matchDigestPrefix s =
     (let t = dropWhile isWhite s;
          u = drop 6 t;
          rest = dropWhile isWhite u
      in if toLowerCase (take 6 t) = ''digest'' \<and> u \<noteq> [] \<and> isWhite (hd u)
            \<and> \<not> list_ex isLineTerminator rest
         then Some rest else None)"

text \<open>
  The challenge is the object that the loop fills by key: a finite map from attribute
  names to values, of which \<open>realm\<close>, \<open>nonce\<close>, \<open>qop\<close>, \<open>opaque\<close>, \<open>algorithm\<close>
  and \<open>charset\<close> are read later.
\<close>

type_synonym DigestChallenge = "string \<rightharpoonup> string"

definition unquote :: "string \<Rightarrow> string" where
  "unquote v = (if startsWith v [CHR 0x22] \<and> endsWith v [CHR 0x22]
                then take (length v - 2) (drop 1 v) else v)"

text \<open>
  One turn of the loop over the parts. \<open>eq\<close> is \<open>part.indexOf("=")\<close>, with the length
  of the part standing for \<open>-1\<close>. An assignment to the key \<open>__proto__\<close> with a string has
  no effect on the object.
\<close>

definition addParam :: "DigestChallenge \<Rightarrow> string \<Rightarrow> DigestChallenge" where
  "addParam params part =
     (let eq = length (takeWhile (\<lambda>c. c \<noteq> CHR ''='') part);
          k = trim (take eq part);
          v = unquote (trim (drop (eq + 1) part))
      in if eq \<ge> length part \<or> eq = 0 then params
         else if k = ''__proto__'' then params
         else params (k \<mapsto> v))"

definition parseDigestChallenge :: "string \<Rightarrow> error + DigestChallenge" where
  "parseDigestChallenge wwwAuthenticate =
     (case matchDigestPrefix wwwAuthenticate of
        None \<Rightarrow> Inl NotDigestChallenge
      | Some rest \<Rightarrow> Inr (foldl addParam Map.empty (splitAuthParams rest)))"

definition pickQop :: "string option \<Rightarrow> string option" where
  "pickQop qop =
     (case qop of
        None \<Rightarrow> None
      | Some q \<Rightarrow>
          if q = [] then None
          else (let parts = filter (\<lambda>s. s \<noteq> []) (map trim (splitOn CHR '','' q))
                in if ''auth'' \<in> set parts then Some ''auth''
                   else (case parts of [] \<Rightarrow> None | x # _ \<Rightarrow> Some x)))"

definition hash :: "runtime \<Rightarrow> string \<Rightarrow> string \<Rightarrow> string" where
  "hash rt algorithm data =
     (let norm = toUpperCase algorithm
      in if norm = ''MD5'' \<or> norm = ''MD5-SESS'' then md5 rt data
         else if norm = ''SHA-256'' \<or> norm = ''SHA-256-SESS'' then sha256 rt data
         else md5 rt data)"

text \<open>
  \<open>nc.toString(16).padStart(8, "0")\<close>. The nonce count is a natural number: the client
  counts up from zero.
\<close>

definition hexChar :: "nat \<Rightarrow> char" where
  "hexChar d = ''0123456789abcdef'' ! (d mod 16)"

fun toHex :: "nat \<Rightarrow> string" where
  "toHex n = (if n < 16 then [hexChar n] else toHex (n div 16) @ [hexChar (n mod 16)])"

declare toHex.simps [simp del]

definition padStart :: "nat \<Rightarrow> char \<Rightarrow> string \<Rightarrow> string" where
  "padStart w c s = replicate (w - length s) c @ s"

definition ncStr :: "nat \<Rightarrow> string" where
  "ncStr nc = padStart 8 CHR ''0'' (toHex nc)"

text \<open>
  The parameter object of \<open>buildDigestAuthorization\<close> (\<open>dpassword\<close> and \<open>dmethod\<close> are
  its \<open>password\<close> and \<open>method\<close>).
\<close>

record DigestParams =
  username :: string
  dpassword :: string
  dmethod :: string
  uri :: string
  challenge :: DigestChallenge
  nc :: nat

text \<open>\<open>if (v) parts.push(f(v))\<close>: an absent or empty string pushes nothing.\<close>

definition optPart :: "string option \<Rightarrow> (string \<Rightarrow> string) \<Rightarrow> string list" where
  "optPart v f = (case v of None \<Rightarrow> [] | Some s \<Rightarrow> if s = [] then [] else [f s])"

definition quoted :: "string \<Rightarrow> string \<Rightarrow> string" where
  "quoted k v = k @ [CHR ''='', CHR 0x22] @ v @ [CHR 0x22]"

text \<open>
  \<open>buildDigestAuthorization\<close>. The client nonce is the value that \<open>randomHex(16)\<close>
  returns in this call. \<open>digestHA1\<close>, \<open>digestResponse\<close> and \<open>digestParts\<close> are the
  local variables \<open>ha1\<close>, \<open>response\<close> and \<open>parts\<close> of the source.
\<close>

definition digestAlgorithm :: "DigestParams \<Rightarrow> string" where
  "digestAlgorithm p = toUpperCase (orElse (challenge p ''algorithm'') ''MD5'')"

definition digestHA1 :: "runtime \<Rightarrow> string \<Rightarrow> DigestParams \<Rightarrow> string" where
  "digestHA1 rt cnonce p =
     (let realm = orElse (challenge p ''realm'') [];
          nonce = orElse (challenge p ''nonce'') [];
          algorithm = digestAlgorithm p;
          ha1 = hash rt algorithm (username p @ '':'' @ realm @ '':'' @ dpassword p)
      in if endsWith algorithm ''-SESS''
         then hash rt algorithm (ha1 @ '':'' @ nonce @ '':'' @ cnonce)
         else ha1)"

definition digestHA2 :: "runtime \<Rightarrow> DigestParams \<Rightarrow> string" where
  "digestHA2 rt p = hash rt (digestAlgorithm p) (dmethod p @ '':'' @ uri p)"

definition digestResponse :: "runtime \<Rightarrow> string \<Rightarrow> DigestParams \<Rightarrow> string" where
  "digestResponse rt cnonce p =
     (let nonce = orElse (challenge p ''nonce'') [];
          ha1 = digestHA1 rt cnonce p;
          ha2 = digestHA2 rt p
      in case pickQop (challenge p ''qop'') of
           Some qop \<Rightarrow>
             hash rt (digestAlgorithm p)
               (ha1 @ '':'' @ nonce @ '':'' @ ncStr (nc p) @ '':'' @ cnonce @ '':'' @ qop @ '':'' @ ha2)
         | None \<Rightarrow> hash rt (digestAlgorithm p) (ha1 @ '':'' @ nonce @ '':'' @ ha2))"

definition digestParts :: "runtime \<Rightarrow> string \<Rightarrow> DigestParams \<Rightarrow> string list" where
  "digestParts rt cnonce p =
     [quoted ''username'' (username p),
      quoted ''realm'' (orElse (challenge p ''realm'') []),
      quoted ''nonce'' (orElse (challenge p ''nonce'') []),
      quoted ''uri'' (uri p),
      quoted ''response'' (digestResponse rt cnonce p)]
     @ optPart (challenge p ''opaque'') (quoted ''opaque'')
     @ optPart (challenge p ''charset'') (quoted ''charset'')
     @ optPart (challenge p ''algorithm'') (\<lambda>a. ''algorithm='' @ a)
     @ (case pickQop (challenge p ''qop'') of
          Some qop \<Rightarrow> [''qop='' @ qop, ''nc='' @ ncStr (nc p), quoted ''cnonce'' cnonce]
        | None \<Rightarrow> [])"

definition buildDigestAuthorization :: "runtime \<Rightarrow> string \<Rightarrow> DigestParams \<Rightarrow> string" where
  "buildDigestAuthorization rt cnonce p = ''Digest '' @ join '', '' (digestParts rt cnonce p)"

section \<open>The protocol client (Pts2Client.ts)\<close>

text \<open>
  The device is the environment of the client. A POST is recorded with its URL, its
  \<open>Authorization\<close> header (if any) and its body; the outcome of \<open>fetch\<close> is a function
  of all the POSTs made so far, the current one last. An outcome is a rejected
  \<open>fetch\<close> (with the name of the error and the code string that the handler reads) or
  a response with its status, its \<open>WWW-Authenticate\<close> and \<open>Content-Type\<close> headers and
  its body; the body is a failed read, or a text, given by what \<open>JSON.parse\<close> makes of it
  (\<open>None\<close> when it throws).
\<close>

record http_request =
  url :: string
  authorization :: "string option"
  body :: json

datatype http_body = BodyReadFails | BodyText "json option"

datatype http_reply =
    FetchFails string string
  | Response nat "string option" "string option" http_body

type_synonym server = "http_request list \<Rightarrow> http_reply"

text \<open>
  The mutable state: the nonce count of the client instance, and the POSTs that have
  been made.
\<close>

record client_state =
  digestNc :: nat
  sent :: "http_request list"

text \<open>What \<open>postJson\<close> resolves to: the sentinel of a 401, or the parsed body.\<close>

datatype post_result = Unauthorized "string option" | Parsed json

definition baseUrl :: "runtime \<Rightarrow> Pts2Config \<Rightarrow> string" where
  "baseUrl rt cfg =
     (let port = (if security cfg = Https then httpsPort cfg else httpPort cfg)
      in (case security cfg of Http \<Rightarrow> ''http'' | Https \<Rightarrow> ''https'')
         @ ''://'' @ host cfg @ '':'' @ numToString rt (Fin (of_int port)) @ ''/jsonPTS'')"

definition requestPathname :: string where
  "requestPathname = ''/jsonPTS''"

definition basicAuthHeader :: "runtime \<Rightarrow> Pts2Config \<Rightarrow> string" where
  "basicAuthHeader rt cfg = ''Basic '' @ base64 rt (login cfg @ '':'' @ password cfg)"

definition transportKind :: "string \<Rightarrow> string \<Rightarrow> kind" where
  "transportKind name code =
     (if name = ''AbortError'' \<or> code = ''UND_ERR_ABORTED'' \<or> code = ''ETIMEDOUT''
         \<or> code = ''ESOCKETTIMEDOUT''
      then Timeout else Network)"

definition postJson ::
  "runtime \<Rightarrow> Pts2Config \<Rightarrow> server \<Rightarrow> client_state \<Rightarrow> json \<Rightarrow> string option
     \<Rightarrow> (error + post_result) \<times> client_state" where
  "postJson rt cfg srv st b extraAuth =
     (let req = \<lparr> url = baseUrl rt cfg, authorization = extraAuth, body = b \<rparr>;
          st' = st \<lparr> sent := sent st @ [req] \<rparr>
      in (case srv (sent st') of
            FetchFails name code \<Rightarrow> Inl (Pts2TransportError (transportKind name code) code)
          | Response status www ctype bd \<Rightarrow>
              if status = 401 then Inr (Unauthorized www)
              else (case bd of
                      BodyReadFails \<Rightarrow> Inl BodyReadError
                    | BodyText j \<Rightarrow>
                        if \<not> (200 \<le> status \<and> status \<le> 299) then Inl (HttpStatusError status)
                        else if \<not> (case ctype of None \<Rightarrow> False
                                     | Some c \<Rightarrow> includesStr c ''application/json'')
                        then Inl NonJsonResponse
                        else (case j of None \<Rightarrow> Inl SyntaxError | Some v \<Rightarrow> Inr (Parsed v))),
          st'))"

text \<open>Truthiness of a JSON value, and of the property \<open>__unauthorized\<close> of a parsed body.\<close>

fun jsTruthy :: "json \<Rightarrow> bool" where
  "jsTruthy JNull = False"
| "jsTruthy (JBool b) = b"
| "jsTruthy (JNum n) = (n \<noteq> NaN \<and> n \<noteq> Fin 0)"
| "jsTruthy (JStr s) = (s \<noteq> [])"
| "jsTruthy (JArr xs) = True"
| "jsTruthy (JObj kvs) = True"

fun hasUnauthorizedFlag :: "json \<Rightarrow> bool" where
  "hasUnauthorizedFlag (JObj kvs) =
     (case map_of kvs ''__unauthorized'' of None \<Rightarrow> False | Some v \<Rightarrow> jsTruthy v)"
| "hasUnauthorizedFlag _ = False"

text \<open>
  \<open>postWithAuth\<close>. A parsed body that itself has a truthy \<open>__unauthorized\<close> has no
  \<open>Headers\<close> object under \<open>headers\<close>, so that \<open>hdrs.get\<close> throws a \<open>TypeError\<close>.
\<close>

definition postWithAuth ::
  "runtime \<Rightarrow> Pts2Config \<Rightarrow> server \<Rightarrow> string \<Rightarrow> client_state \<Rightarrow> json
     \<Rightarrow> (error + post_result) \<times> client_state" where
  "postWithAuth rt cfg srv cnonce st b =
     (if auth cfg = Basic then postJson rt cfg srv st b (Some (basicAuthHeader rt cfg))
      else
        (case postJson rt cfg srv st b None of
           (Inl e, st1) \<Rightarrow> (Inl e, st1)
         | (Inr (Parsed j), st1) \<Rightarrow>
             if hasUnauthorizedFlag j then (Inl TypeError, st1) else (Inr (Parsed j), st1)
         | (Inr (Unauthorized hdr), st1) \<Rightarrow>
             (case hdr of
                None \<Rightarrow> (Inl NoWwwAuthenticate, st1)
              | Some www \<Rightarrow>
                  if www = [] then (Inl NoWwwAuthenticate, st1)
                  else (case parseDigestChallenge www of
                          Inl e \<Rightarrow> (Inl e, st1)
                        | Inr ch \<Rightarrow>
                            (let st2 = st1 \<lparr> digestNc := digestNc st1 + 1 \<rparr>;
                                 authz = buildDigestAuthorization rt cnonce
                                           \<lparr> username = login cfg, dpassword = password cfg,
                                             dmethod = ''POST'', uri = requestPathname,
                                             challenge = ch, nc = digestNc st2 \<rparr>
                             in postJson rt cfg srv st2 b (Some authz))))))"

text \<open>
  \<open>execute\<close>. The sentinel of a second 401 is an object without \<open>Protocol\<close>, which the
  response schema rejects.
\<close>

definition parseRaw :: "runtime \<Rightarrow> post_result \<Rightarrow> error + JsonPtsPacketResponse list" where
  "parseRaw rt raw = (case raw of Unauthorized hdr \<Rightarrow> Inl ZodError | Parsed j \<Rightarrow> parseEnvelope rt j)"

fun idMismatch :: "nat \<Rightarrow> JsonPtsPacketResponse list \<Rightarrow> (nat \<times> rat) option" where
  "idMismatch i [] = None"
| "idMismatch i (p # ps) = (if id_r p \<noteq> of_nat i then Some (i, id_r p) else idMismatch (Suc i) ps)"

definition execute ::
  "runtime \<Rightarrow> Pts2Config \<Rightarrow> server \<Rightarrow> string \<Rightarrow> client_state \<Rightarrow> JsonPtsPacketRequest list
     \<Rightarrow> (error + JsonPtsPacketResponse list) \<times> client_state" where
  "execute rt cfg srv cnonce st packets =
     (case postWithAuth rt cfg srv cnonce st (buildEnvelope packets) of
        (Inl e, st') \<Rightarrow> (Inl e, st')
      | (Inr raw, st') \<Rightarrow>
          (case parseRaw rt raw of
             Inl e \<Rightarrow> (Inl e, st')
           | Inr parsed \<Rightarrow>
               if length parsed \<noteq> length packets
               then (Inl (PacketCountMismatch (length packets) (length parsed)), st')
               else (case idMismatch 0 parsed of
                       Some (i, got) \<Rightarrow> (Inl (PacketIdMismatch i got), st')
                     | None \<Rightarrow>
                         (case find error_r parsed of
                            Some firstError \<Rightarrow> (Inl (JsonPtsPacketError firstError), st')
                          | None \<Rightarrow> (Inr parsed, st')))))"

record SetDateTimeParams =
  dateTime :: string
  utcOffset :: "jsnum option"
  autoSynchronize :: "bool option"

text \<open>\<open>setDateTime\<close>: the \<open>data\<close> object of the request, then the call.\<close>

definition setDateTimeData :: "SetDateTimeParams \<Rightarrow> json" where
  "setDateTimeData params =
     JObj [(''DateTime'', JStr (dateTime params)),
           (''UTCOffset'', JNum (case utcOffset params of None \<Rightarrow> Fin 0 | Some n \<Rightarrow> n)),
           (''AutoSynchronize'',
              JBool (case autoSynchronize params of None \<Rightarrow> False | Some a \<Rightarrow> a))]"

definition setDateTime ::
  "runtime \<Rightarrow> Pts2Config \<Rightarrow> server \<Rightarrow> string \<Rightarrow> client_state \<Rightarrow> SetDateTimeParams
     \<Rightarrow> (error + bool) \<times> client_state" where
  "setDateTime rt cfg srv cnonce st params =
     (case execute rt cfg srv cnonce st
             [\<lparr> type_q = ''SetDateTime'', data_q = Some (setDateTimeData params) \<rparr>] of
        (Inl e, st') \<Rightarrow> (Inl e, st')
      | (Inr [], st') \<Rightarrow> (Inl TypeError, st')
      | (Inr (pkt # rest), st') \<Rightarrow> (Inr (\<not> error_r pkt), st'))"

section \<open>Vocabulary of the properties\<close>

text \<open>Reading a property of a JSON value, and the packets of an envelope.\<close>

definition fieldOf :: "string \<Rightarrow> json \<Rightarrow> json option" where
  "fieldOf k j = (case j of JObj kvs \<Rightarrow> map_of kvs k | _ \<Rightarrow> None)"

definition packetsOf :: "json \<Rightarrow> json list" where
  "packetsOf raw = (case fieldOf ''Packets'' raw of Some (JArr ps) \<Rightarrow> ps | _ \<Rightarrow> [])"

text \<open>
  A string has no leading integer when, after white space and one optional sign, it does
  not go on with a decimal digit.
\<close>

definition noLeadingInteger :: "string \<Rightarrow> bool" where
  "noLeadingInteger s =
     (let t = dropWhile isWhite s;
          u = (case t of [] \<Rightarrow> [] | c # cs \<Rightarrow> if c = CHR ''-'' \<or> c = CHR ''+'' then cs else t)
      in case u of [] \<Rightarrow> True | c # cs \<Rightarrow> \<not> isDigit c)"

text \<open>The text after one optional sign.\<close>

definition afterSign :: "string \<Rightarrow> string" where
  "afterSign t = (case t of [] \<Rightarrow> [] | c # cs \<Rightarrow> if c = CHR ''-'' \<or> c = CHR ''+'' then cs else t)"

text \<open>
  An array has the string of its elements joined by commas, so it has no leading integer
  when its first element has none: the array is empty, or the element is \<open>null\<close>, a
  boolean or an object, a string with no leading integer, a number whose string (the
  runtime's) has none, or an array of this kind.
\<close>

fun arrayLacksInteger :: "runtime \<Rightarrow> json list \<Rightarrow> bool" where
  "arrayLacksInteger rt [] = True"
| "arrayLacksInteger rt (JNull # xs) = True"
| "arrayLacksInteger rt (JBool b # xs) = True"
| "arrayLacksInteger rt (JNum n # xs) = noLeadingInteger (numToString rt n)"
| "arrayLacksInteger rt (JStr s # xs) = noLeadingInteger s"
| "arrayLacksInteger rt (JArr ys # xs) = arrayLacksInteger rt ys"
| "arrayLacksInteger rt (JObj kvs # xs) = True"

text \<open>
  A packet lacks a numeric id when its \<open>Id\<close> is absent or \<open>null\<close>, a boolean, an object,
  a number that is not finite, a string with no leading integer, or an array with no
  leading integer.
\<close>

definition lacksNumericId :: "runtime \<Rightarrow> json \<Rightarrow> bool" where
  "lacksNumericId rt p =
     (case fieldOf ''Id'' p of
        None \<Rightarrow> True
      | Some JNull \<Rightarrow> True
      | Some (JBool b) \<Rightarrow> True
      | Some (JNum n) \<Rightarrow> \<not> isFinite n
      | Some (JStr s) \<Rightarrow> noLeadingInteger s
      | Some (JArr xs) \<Rightarrow> arrayLacksInteger rt xs
      | Some (JObj kvs) \<Rightarrow> True)"

text \<open>A response envelope with the given packets, each an object.\<close>

definition responseEnvelope :: "(string \<times> json) list list \<Rightarrow> json" where
  "responseEnvelope ps = JObj [(''Protocol'', JStr ''jsonPTS''), (''Packets'', JArr (map JObj ps))]"

text \<open>
  A JSON value is convertible when \<open>String\<close> does not throw on it: it is not an object
  with an own \<open>toString\<close> key, nor an array with such an object in it, at any depth. A
  packet is convertible when its \<open>Error\<close>, \<open>Type\<close>, \<open>Code\<close> and \<open>Message\<close>, where
  present, are.
\<close>

fun stringable :: "json \<Rightarrow> bool"
  and stringables :: "json list \<Rightarrow> bool" where
  "stringable JNull = True"
| "stringable (JBool b) = True"
| "stringable (JNum n) = True"
| "stringable (JStr s) = True"
| "stringable (JArr xs) = stringables xs"
| "stringable (JObj kvs) = (map_of kvs ''toString'' = None)"
| "stringables [] = True"
| "stringables (x # xs) = (stringable x \<and> stringables xs)"

definition convertibleField :: "(string \<times> json) list \<Rightarrow> string \<Rightarrow> bool" where
  "convertibleField f k = (case map_of f k of None \<Rightarrow> True | Some v \<Rightarrow> stringable v)"

definition convertiblePacket :: "(string \<times> json) list \<Rightarrow> bool" where
  "convertiblePacket f \<longleftrightarrow>
     convertibleField f ''Error'' \<and> convertibleField f ''Type'' \<and> convertibleField f ''Code''
     \<and> convertibleField f ''Message''"

text \<open>
  The headers that the pattern \<open>/^\s*Digest\s+(.*)$/i\<close> describes: white space, the word
  \<open>Digest\<close> in any case, at least one white-space character, and a rest without a line
  terminator.
\<close>

definition digestShaped :: "string \<Rightarrow> bool" where
  "digestShaped h \<longleftrightarrow>
     (\<exists>ws tok sp rest. h = ws @ tok @ sp @ rest \<and> list_all isWhite ws
        \<and> toLowerCase tok = ''digest'' \<and> sp \<noteq> [] \<and> list_all isWhite sp
        \<and> \<not> list_ex isLineTerminator rest)"

text \<open>The number that a string of lowercase hexadecimal digits denotes.\<close>

definition hexVal :: "char \<Rightarrow> nat" where
  "hexVal c =
     (case map_of (zip ''0123456789abcdef'' [0, 1, 2, 3, 4, 5, 6, 7, 8, 9, 10, 11, 12, 13, 14, 15]) c of
        Some d \<Rightarrow> d | None \<Rightarrow> 0)"

definition fromHex :: "string \<Rightarrow> nat" where
  "fromHex s = foldl (\<lambda>acc c. 16 * acc + hexVal c) 0 s"

text \<open>
  The two POSTs of a digest call: the first, without \<open>Authorization\<close>, and the retry with
  the header built for a challenge and a nonce count. The challenge of a reply is the one
  parsed from the \<open>WWW-Authenticate\<close> header of a 401, when the header is there, is not
  empty and parses.
\<close>

definition unauthenticatedPost :: "runtime \<Rightarrow> Pts2Config \<Rightarrow> json \<Rightarrow> http_request" where
  "unauthenticatedPost rt cfg b = \<lparr> url = baseUrl rt cfg, authorization = None, body = b \<rparr>"

definition retryParams :: "Pts2Config \<Rightarrow> DigestChallenge \<Rightarrow> nat \<Rightarrow> DigestParams" where
  "retryParams cfg ch n =
     \<lparr> username = login cfg, dpassword = password cfg, dmethod = ''POST'',
       uri = requestPathname, challenge = ch, nc = n \<rparr>"

definition digestRetry ::
  "runtime \<Rightarrow> Pts2Config \<Rightarrow> string \<Rightarrow> DigestChallenge \<Rightarrow> nat \<Rightarrow> json \<Rightarrow> http_request" where
  "digestRetry rt cfg cnonce ch n b =
     \<lparr> url = baseUrl rt cfg,
       authorization = Some (buildDigestAuthorization rt cnonce (retryParams cfg ch n)),
       body = b \<rparr>"


text \<open>
  The fields of an emitted header, read the way this module reads a header: the text after
  the scheme is cut at the commas outside quotes by \<open>splitAuthParams\<close>, and a piece with
  an equals sign after its first character is a field, named by the trimmed text before the
  sign (the test \<open>eq <= 0\<close> and the key \<open>k\<close> of the loop in \<open>parseDigestChallenge\<close>).
\<close>

definition partKey :: "string \<Rightarrow> string option" where
  "partKey part =
     (let eq = length (takeWhile (\<lambda>c. c \<noteq> CHR ''='') part)
      in if eq \<ge> length part \<or> eq = 0 then None else Some (trim (take eq part)))"

definition headerFields :: "string \<Rightarrow> string list" where
  "headerFields header =
     List.map_filter partKey (splitAuthParams (drop (length ''Digest '') header))"

text \<open>
  The values written into the header are plain: none of them contains a double quote, and
  the algorithm of the challenge, which is written without quotes, contains no comma. (The
  digest is one of the values; in hexadecimal it is plain.)
\<close>

definition plainParams :: "runtime \<Rightarrow> string \<Rightarrow> DigestParams \<Rightarrow> bool" where
  "plainParams rt cnonce p \<longleftrightarrow>
     list_all (\<lambda>v. CHR 0x22 \<notin> set v)
       [username p, orElse (challenge p ''realm'') [], orElse (challenge p ''nonce'') [], uri p,
        digestResponse rt cnonce p, orElse (challenge p ''opaque'') [],
        orElse (challenge p ''charset'') [], orElse (challenge p ''algorithm'') [],
        orElse (pickQop (challenge p ''qop'')) [], cnonce]
     \<and> CHR '','' \<notin> set (orElse (challenge p ''algorithm'') [])"

subsection \<open>Concrete inputs\<close>

text \<open>
  A runtime for the concrete inputs. Its \<open>numToString\<close> writes integers in decimal, as the
  language does below \<open>10^21\<close>; the digests and base64 are stand-ins that only tag their
  argument.
\<close>

definition digitChar :: "nat \<Rightarrow> char" where
  "digitChar d = ''0123456789'' ! (d mod 10)"

fun toDecimal :: "nat \<Rightarrow> string" where
  "toDecimal n = (if n < 10 then [digitChar n] else toDecimal (n div 10) @ [digitChar (n mod 10)])"

declare toDecimal.simps [simp del]

definition showNum :: "jsnum \<Rightarrow> string" where
  "showNum n =
     (case n of
        Fin q \<Rightarrow> if of_int \<lfloor>q\<rfloor> = q
                 then (if q < 0 then ''-'' else []) @ toDecimal (nat \<bar>\<lfloor>q\<rfloor>\<bar>)
                 else ''?''
      | PInf \<Rightarrow> ''Infinity''
      | NInf \<Rightarrow> ''-Infinity''
      | NaN \<Rightarrow> ''NaN'')"

definition rt_stub :: runtime where
  "rt_stub = \<lparr> numToString = showNum, md5 = (\<lambda>s. ''md5:'' @ s),
               sha256 = (\<lambda>s. ''sha256:'' @ s), base64 = (\<lambda>s. ''b64:'' @ s) \<rparr>"

definition env_host_only :: env where
  "env_host_only = [''PTS2_HOST'' \<mapsto> ''pts'']"

definition cfg_default :: Pts2Config where
  "cfg_default = \<lparr> host = ''pts'', security = Https, httpPort = 80, httpsPort = 443,
       auth = Digest, login = [], password = [], timeoutMs = 15000, tlsInsecure = True \<rparr>"

definition env_tls_off :: env where
  "env_tls_off = [''PTS2_HOST'' \<mapsto> ''pts'', ''PTS2_TLS_INSECURE'' \<mapsto> CHR 0xA0 # '' Off'']"

definition env_no_credentials :: env where
  "env_no_credentials =
     [''PTS2_HOST'' \<mapsto> ''pts'', ''PTS2_LOGIN'' \<mapsto> [], ''PTS2_PASSWORD'' \<mapsto> []]"

definition env_empty :: env where
  "env_empty = Map.empty"

definition pkt_fractional_id :: "(string \<times> json) list" where
  "pkt_fractional_id = [(''Id'', JNum (Fin (3 / 2)))]"

definition pkt_no_id :: "(string \<times> json) list" where
  "pkt_no_id = [(''Type'', JStr ''GetDateTime'')]"

definition pkt_a :: "(string \<times> json) list" where
  "pkt_a = [(''Id'', JNum (Fin 0)), (''Type'', JStr ''a'')]"

definition pkt_b :: "(string \<times> json) list" where
  "pkt_b = [(''Id'', JNum (Fin 0)), (''Type'', JStr ''b'')]"

definition pkt_c :: "(string \<times> json) list" where
  "pkt_c = [(''Id'', JNum (Fin 1)), (''Type'', JStr ''c'')]"

definition resp_a :: JsonPtsPacketResponse where
  "resp_a = \<lparr> id_r = 0, type_r = Some ''a'', error_r = False, code_r = None,
              message_r = None, data_r = None \<rparr>"

definition resp_b :: JsonPtsPacketResponse where
  "resp_b = \<lparr> id_r = 0, type_r = Some ''b'', error_r = False, code_r = None,
              message_r = None, data_r = None \<rparr>"

definition resp_c :: JsonPtsPacketResponse where
  "resp_c = \<lparr> id_r = 1, type_r = Some ''c'', error_r = False, code_r = None,
              message_r = None, data_r = None \<rparr>"

definition reqs_two :: "JsonPtsPacketRequest list" where
  "reqs_two = [\<lparr> type_q = ''GetDateTime'', data_q = None \<rparr>,
               \<lparr> type_q = ''GetPumpStatus'', data_q = Some (JObj [(''Pump'', JNum (Fin 1))]) \<rparr>]"

definition hdr_bare :: string where
  "hdr_bare = ''Digest''"

definition hdr_digest :: string where
  "hdr_digest = ''Digest '' @ join '', '' [quoted ''realm'' ''pts'', quoted ''nonce'' ''abc'',
                                           quoted ''qop'' ''auth'']"

definition hdr_nbsp :: string where
  "hdr_nbsp = CHR 0xA0 # ''digest'' @ CHR 0xA0 # ''realm=x''"

definition ch_digest :: DigestChallenge where
  "ch_digest = [''realm'' \<mapsto> ''pts'', ''nonce'' \<mapsto> ''abc'', ''qop'' \<mapsto> ''auth'']"

definition dp_auth :: DigestParams where
  "dp_auth = \<lparr> username = ''admin'', dpassword = ''secret'', dmethod = ''POST'',
       uri = ''/jsonPTS'', challenge = ch_digest, nc = 1 \<rparr>"

definition dp_legacy :: DigestParams where
  "dp_legacy = \<lparr> username = ''admin'', dpassword = ''secret'', dmethod = ''POST'',
       uri = ''/jsonPTS'', challenge = [''realm'' \<mapsto> ''pts'', ''nonce'' \<mapsto> ''abc''], nc = 1 \<rparr>"

definition dp_wide :: DigestParams where
  "dp_wide = \<lparr> username = ''admin'', dpassword = ''secret'', dmethod = ''POST'',
       uri = ''/jsonPTS'', challenge = ch_digest, nc = 4294967296 \<rparr>"

definition hdr_inject :: string where
  "hdr_inject = ''Digest '' @ join '', '' [quoted ''realm'' ''pts'', quoted ''nonce'' ''abc'',
       quoted ''algorithm'' ''MD5, qop=auth, nc=00000001, cnonce=x'']"

definition ch_inject :: DigestChallenge where
  "ch_inject = [''realm'' \<mapsto> ''pts'', ''nonce'' \<mapsto> ''abc'',
                ''algorithm'' \<mapsto> ''MD5, qop=auth, nc=00000001, cnonce=x'']"

definition dp_inject :: DigestParams where
  "dp_inject = \<lparr> username = ''admin'', dpassword = ''secret'', dmethod = ''POST'',
       uri = ''/jsonPTS'', challenge = ch_inject, nc = 1 \<rparr>"

definition cfg_admin :: Pts2Config where
  "cfg_admin = cfg_default \<lparr> login := ''admin'', password := ''secret'' \<rparr>"

definition st_fresh :: client_state where
  "st_fresh = \<lparr> digestNc = 0, sent = [] \<rparr>"

definition reqs_one :: "JsonPtsPacketRequest list" where
  "reqs_one = [\<lparr> type_q = ''GetDateTime'', data_q = None \<rparr>]"

definition pkt_datetime :: "(string \<times> json) list" where
  "pkt_datetime = [(''Id'', JNum (Fin 0)), (''Type'', JStr ''DateTime''),
                   (''Data'', JObj [(''DateTime'', JStr ''2026-02-12T10:00:00'')])]"

definition resp_datetime :: JsonPtsPacketResponse where
  "resp_datetime = \<lparr> id_r = 0, type_r = Some ''DateTime'', error_r = False, code_r = None,
       message_r = None, data_r = Some (JObj [(''DateTime'', JStr ''2026-02-12T10:00:00'')]) \<rparr>"

definition pkt_error :: "(string \<times> json) list" where
  "pkt_error = [(''Id'', JNum (Fin 0)), (''Type'', JStr ''GetDateTime''), (''Error'', JBool True),
                (''Message'', JStr ''JSONPTS_ERROR_NOT_FOUND'')]"

definition resp_error :: JsonPtsPacketResponse where
  "resp_error = \<lparr> id_r = 0, type_r = Some ''GetDateTime'', error_r = True, code_r = None,
       message_r = Some ''JSONPTS_ERROR_NOT_FOUND'', data_r = None \<rparr>"





definition srv_digest :: server where
  "srv_digest hist =
     (case authorization (last hist) of
        None \<Rightarrow> Response 401 (Some hdr_digest) None (BodyText None)
      | Some a \<Rightarrow> Response 200 None (Some ''application/json; charset=utf-8'')
                    (BodyText (Some (responseEnvelope [pkt_datetime]))))"

definition srv_reply :: "json \<Rightarrow> server" where
  "srv_reply j hist = Response 200 None (Some ''application/json'') (BodyText (Some j))"

definition params_now :: SetDateTimeParams where
  "params_now = \<lparr> dateTime = ''2026-02-12T10:00:00'', utcOffset = Some (Fin 0),
                   autoSynchronize = Some False \<rparr>"

definition raw_no_protocol :: json where
  "raw_no_protocol = JObj [(''Packets'', JArr [])]"

definition raw_bad_packets :: json where
  "raw_bad_packets = JObj [(''Protocol'', JStr ''jsonPTS''), (''Packets'', JStr ''none'')]"

definition pkt_bad_type :: "(string \<times> json) list" where
  "pkt_bad_type = [(''Id'', JNum (Fin 0)), (''Type'', JObj [(''toString'', JNull)])]"

definition pkt_nbsp_id :: "(string \<times> json) list" where
  "pkt_nbsp_id = [(''Id'', JStr (CHR 0xA0 # ''5''))]"

definition pkt_array_id :: "(string \<times> json) list" where
  "pkt_array_id = [(''Id'', JArr [])]"

section \<open>Properties of the configuration loader\<close>

lemmas str_simps = toLowerCase_def toUpperCase_def lowerChar_def upperChar_def upperChars_def
  upperLetters_def lowerLetters_def trim_def trimStart_def isWhite_def isDigit_def digitVal_def
  decimalValue_def

lemmas cfg_simps = loadPts2ConfigFromEnv_def orElse_def parseIntOr_def parseBool_def zodSecurity_def
  zodAuth_def zodPositiveInt_def jsParseInt_def roundToDouble_def

text \<open>
  C1, as stated, fails: with \<open>PTS2_TLS_INSECURE\<close> absent (only the host is set) the loader
  returns a configuration whose \<open>tlsInsecure\<close> is true, because the fallback handed to
  \<open>parseBool\<close> is \<open>true\<close>.
\<close>

theorem tlsInsecure_default_counterexample:
  "env_host_only ''PTS2_TLS_INSECURE'' = None
   \<and> loadPts2ConfigFromEnv env_host_only = Inr cfg_default
   \<and> tlsInsecure cfg_default = True"
  by (simp add: env_host_only_def cfg_default_def cfg_simps str_simps)

text \<open>
  C1, amended: whenever the loader returns a configuration, \<open>tlsInsecure\<close> is the value of
  \<open>parseBool\<close> on \<open>PTS2_TLS_INSECURE\<close> with fallback true. So certificate verification
  stays enabled (\<open>tlsInsecure\<close> false) exactly when the variable is set to one of the
  words 0, false, no, n, off (trimmed, in any case); when the variable is absent or holds
  anything else, \<open>tlsInsecure\<close> is true.
\<close>

theorem tlsInsecure_from_env:
  assumes "loadPts2ConfigFromEnv env = Inr cfg"
  shows "tlsInsecure cfg = parseBool (env ''PTS2_TLS_INSECURE'') True
         \<and> (\<not> tlsInsecure cfg \<longleftrightarrow>
              (\<exists>v. env ''PTS2_TLS_INSECURE'' = Some v
                 \<and> toLowerCase (trim v) \<in> {''0'', ''false'', ''no'', ''n'', ''off''}))
         \<and> (env ''PTS2_TLS_INSECURE'' = None \<longrightarrow> tlsInsecure cfg)"
proof -
  have a: "tlsInsecure cfg = parseBool (env ''PTS2_TLS_INSECURE'') True"
    using assms by (auto simp: loadPts2ConfigFromEnv_def Let_def split: if_splits option.splits)
  show ?thesis
    unfolding a by (auto simp: parseBool_def Let_def split: option.splits)
qed

theorem tlsInsecure_from_env_witness:
  "loadPts2ConfigFromEnv env_tls_off = Inr (cfg_default \<lparr> tlsInsecure := False \<rparr>)
   \<and> \<not> tlsInsecure (cfg_default \<lparr> tlsInsecure := False \<rparr>)
   \<and> parseBool (env_tls_off ''PTS2_TLS_INSECURE'') True = False
   \<and> loadPts2ConfigFromEnv env_host_only = Inr cfg_default
   \<and> env_host_only ''PTS2_TLS_INSECURE'' = None
   \<and> tlsInsecure cfg_default"
proof -
  have l: "loadPts2ConfigFromEnv env_tls_off = Inr (cfg_default \<lparr> tlsInsecure := False \<rparr>)"
    by (simp add: env_tls_off_def cfg_default_def cfg_simps str_simps)
  have m: "loadPts2ConfigFromEnv env_host_only = Inr cfg_default"
    by (simp add: env_host_only_def cfg_default_def cfg_simps str_simps)
  have n: "env_host_only ''PTS2_TLS_INSECURE'' = None"
    by (simp add: env_host_only_def)
  from tlsInsecure_from_env [OF l] have a: "parseBool (env_tls_off ''PTS2_TLS_INSECURE'') True = False"
    by simp
  from tlsInsecure_from_env [OF m] n have b: "tlsInsecure cfg_default" by blast
  from a b l m n show ?thesis by simp
qed

text \<open>
  C9, as stated, fails: with \<open>PTS2_LOGIN\<close> and \<open>PTS2_PASSWORD\<close> set to the empty string
  the loader returns a configuration; the schema asks a minimum length of \<open>host\<close> only.
\<close>

theorem empty_credentials_counterexample:
  "env_no_credentials ''PTS2_LOGIN'' = Some [] \<and> env_no_credentials ''PTS2_PASSWORD'' = Some []
   \<and> loadPts2ConfigFromEnv env_no_credentials = Inr cfg_default
   \<and> login cfg_default = [] \<and> password cfg_default = []"
  by (simp add: env_no_credentials_def cfg_default_def cfg_simps str_simps)

text \<open>
  C9, amended: loading fails when the required field \<open>host\<close> is empty, that is for every
  environment in which \<open>PTS2_HOST\<close> is absent or the empty string; \<open>login\<close> and
  \<open>password\<close> may be empty, and whether loading fails never depends on them.
\<close>

theorem load_requires_host:
  "(orElse (env ''PTS2_HOST'') [] = [] \<longrightarrow> loadPts2ConfigFromEnv env = Inl ZodConfigError)
   \<and> (isl (loadPts2ConfigFromEnv (env(''PTS2_LOGIN'' := l, ''PTS2_PASSWORD'' := p)))
        \<longleftrightarrow> isl (loadPts2ConfigFromEnv env))"
  by (auto simp: loadPts2ConfigFromEnv_def Let_def split: option.splits)

theorem load_requires_host_witness:
  "orElse (env_empty ''PTS2_HOST'') [] = [] \<and> loadPts2ConfigFromEnv env_empty = Inl ZodConfigError
   \<and> isl (loadPts2ConfigFromEnv
            (env_empty(''PTS2_LOGIN'' := Some ''admin'', ''PTS2_PASSWORD'' := Some ''secret'')))"
proof -
  have h: "orElse (env_empty ''PTS2_HOST'') [] = []"
    by (simp add: env_empty_def orElse_def)
  from load_requires_host [of env_empty "Some ''admin''" "Some ''secret''"] h
  show ?thesis by simp
qed

section \<open>Properties of the envelope codec\<close>

lemma mapE_Inr_all2: "mapE f xs = Inr ys \<Longrightarrow> list_all2 (\<lambda>x y. f x = Inr y) xs ys"
  by (induction xs arbitrary: ys) (auto split: sum.splits)

lemma all2_mapE_Inr: "list_all2 (\<lambda>x y. f x = Inr y) xs ys \<Longrightarrow> mapE f xs = Inr ys"
  by (induction xs ys rule: list_all2_induct) auto

lemma mapE_Inl_iff: "(\<exists>e. mapE f xs = Inl e) \<longleftrightarrow> (\<exists>x\<in>set xs. \<exists>e. f x = Inl e)"
  by (induction xs) (auto split: sum.splits)

lemma mapE_Inr_map: "mapE f xs = Inr ys \<Longrightarrow> ys = map (\<lambda>x. projr (f x)) xs"
  by (induction xs arbitrary: ys) (auto split: sum.splits)

lemma sort_key_perm_distinct:
  fixes f :: "'a \<Rightarrow> 'k::linorder"
  assumes m: "mset xs = mset ys" and d: "distinct (map f xs)"
  shows "sort_key f xs = sort_key f ys"
proof -
  let ?a = "sort_key f xs" and ?b = "sort_key f ys"
  have mm: "mset (map f xs) = mset (map f ys)" using m by (metis mset_map)
  have dy: "distinct (map f ys)" using d mm by (metis mset_eq_imp_distinct_iff)
  have sx: "set xs = set ys" using m by (metis mset_eq_setD)
  have "map f ?a = map f ?b"
  proof (rule sorted_distinct_set_unique)
    show "sorted (map f ?a)" "sorted (map f ?b)" by simp_all
    show "distinct (map f ?a)" using d by (simp add: distinct_map)
    show "distinct (map f ?b)" using dy by (simp add: distinct_map)
    show "set (map f ?a) = set (map f ?b)" using sx by simp
  qed
  moreover have "inj_on f (set ?a \<union> set ?b)" using d sx by (simp add: distinct_map)
  ultimately show ?thesis by (rule map_inj_on)
qed

lemma jsParseInt_noLeading:
  assumes "noLeadingInteger s"
  shows "jsParseInt s = NaN"
proof -
  define t where "t = dropWhile isWhite s"
  show ?thesis
  proof (cases t)
    case Nil
    then show ?thesis
      by (simp add: jsParseInt_def trimStart_def t_def[symmetric])
  next
    case (Cons c cs)
    with assms show ?thesis
      by (cases cs)
         (auto simp: noLeadingInteger_def jsParseInt_def trimStart_def t_def[symmetric] Let_def
               split: if_splits)
  qed
qed

lemma jsParseInt_literals:
  "jsParseInt [] = NaN" "jsParseInt ''true'' = NaN" "jsParseInt ''false'' = NaN"
  "jsParseInt ''[object Object]'' = NaN"
  by (simp_all add: jsParseInt_def trimStart_def isWhite_def isDigit_def)

lemma comma_not_white: "\<not> isWhite CHR '',''"
  by (simp add: isWhite_def)

lemma comma_not_digit: "\<not> isDigit CHR '',''"
  by (simp add: isDigit_def)

lemma nli: "noLeadingInteger s = (case afterSign (dropWhile isWhite s) of [] \<Rightarrow> True | c # cs \<Rightarrow> \<not> isDigit c)"
  by (simp add: noLeadingInteger_def afterSign_def Let_def)

lemma noLeadingInteger_comma_nil:
  assumes "dropWhile isWhite s = []"
  shows "noLeadingInteger (s @ CHR '','' # r) = noLeadingInteger s"
proof -
  from assms have "\<forall>c\<in>set s. isWhite c" by (simp add: dropWhile_eq_Nil_conv)
  then have b: "dropWhile isWhite (s @ CHR '','' # r) = CHR '','' # r"
    by (simp add: dropWhile_append comma_not_white)
  show ?thesis
    by (simp only: nli b assms) (simp add: afterSign_def comma_not_digit)
qed

lemma noLeadingInteger_comma_cons:
  assumes "dropWhile isWhite s = c # cs"
  shows "noLeadingInteger (s @ CHR '','' # r) = noLeadingInteger s"
proof -
  from assms have nw: "\<not> isWhite c" by (metis dropWhile_eq_Cons_conv)
  from assms have "s = takeWhile isWhite s @ c # cs" by (metis takeWhile_dropWhile_id)
  then have "dropWhile isWhite (s @ CHR '','' # r)
               = dropWhile isWhite (takeWhile isWhite s @ (c # cs @ CHR '','' # r))"
    by (metis append_Cons append_assoc)
  also have "\<dots> = dropWhile isWhite (c # cs @ CHR '','' # r)"
    by (rule dropWhile_append2) (auto dest: set_takeWhileD)
  also have "\<dots> = c # cs @ CHR '','' # r"
    using nw by simp
  finally have b: "dropWhile isWhite (s @ CHR '','' # r) = c # (cs @ CHR '','' # r)" by simp
  have "afterSign (c # (cs @ CHR '','' # r)) = afterSign (c # cs) @ CHR '','' # r"
    by (simp add: afterSign_def)
  then show ?thesis
    by (simp only: nli b assms) (cases "afterSign (c # cs)"; simp add: comma_not_digit)
qed

lemma noLeadingInteger_comma:
  "noLeadingInteger (s @ CHR '','' # r) = noLeadingInteger s"
  by (cases "dropWhile isWhite s")
     (simp_all only: noLeadingInteger_comma_nil noLeadingInteger_comma_cons)

lemma noLeadingInteger_join:
  "noLeadingInteger s \<Longrightarrow> noLeadingInteger (join '','' (s # ss))"
  by (cases ss) (simp_all add: noLeadingInteger_comma)

lemma noLeadingInteger_literals:
  "noLeadingInteger []" "noLeadingInteger ''true''" "noLeadingInteger ''false''"
  "noLeadingInteger ''[object Object]''"
  by (simp_all add: noLeadingInteger_def isWhite_def isDigit_def)

lemma jsStrings_Cons_Inr:
  assumes "jsStrings rt (x # xs) = Inr ss"
  obtains s ss' where "ss = s # ss'" "(if x = JNull then Inr [] else jsString rt x) = Inr s"
proof -
  from assms obtain s where s: "(if x = JNull then Inr [] else jsString rt x) = Inr s"
    by (cases "if x = JNull then Inr [] else jsString rt x") (simp_all del: jsString.simps)
  with assms obtain ss' where "jsStrings rt xs = Inr ss'" "ss = s # ss'"
    by (cases "jsStrings rt xs") (simp_all del: jsString.simps)
  with s that show ?thesis by blast
qed

lemma arrayLacksInteger_join:
  "arrayLacksInteger rt xs \<Longrightarrow> jsStrings rt xs = Inr ss \<Longrightarrow> noLeadingInteger (join '','' ss)"
proof (induction rt xs arbitrary: ss rule: arrayLacksInteger.induct)
  case (1 rt)
  then show ?case by (simp add: noLeadingInteger_literals)
next
  case (2 rt xs)
  from 2(2) obtain s ss' where "ss = s # ss'" "s = []"
    by (rule jsStrings_Cons_Inr) simp
  then show ?case
    using noLeadingInteger_join[of "[]" ss'] by (simp only: noLeadingInteger_literals)
next
  case (3 rt b xs)
  from 3(2) obtain s ss' where "ss = s # ss'" "s = ''true'' \<or> s = ''false''"
    by (rule jsStrings_Cons_Inr) (auto split: if_splits)
  then show ?case
    using noLeadingInteger_join[of s ss'] noLeadingInteger_literals by blast
next
  case (4 rt n xs)
  from 4(2) obtain s ss' where "ss = s # ss'" "s = numToString rt n"
    by (rule jsStrings_Cons_Inr) auto
  with 4(1) show ?case
    using noLeadingInteger_join[of s ss'] by simp
next
  case (5 rt s0 xs)
  from 5(2) obtain s ss' where "ss = s # ss'" "s = s0"
    by (rule jsStrings_Cons_Inr) auto
  with 5(1) show ?case
    using noLeadingInteger_join[of s ss'] by simp
next
  case (6 rt ys xs)
  from 6(3) obtain s ss' where e: "ss = s # ss'" and j: "jsString rt (JArr ys) = Inr s"
    by (rule jsStrings_Cons_Inr) auto
  from j obtain ssy where "jsStrings rt ys = Inr ssy" "s = join '','' ssy"
    by (cases "jsStrings rt ys") auto
  with 6(1)[of ssy] 6(2) have "noLeadingInteger s" by simp
  with e show ?case
    using noLeadingInteger_join[of s ss'] by simp
next
  case (7 rt kvs xs)
  from 7(2) obtain s ss' where "ss = s # ss'" "s = ''[object Object]''"
    by (rule jsStrings_Cons_Inr) (auto split: if_splits)
  then show ?case
    using noLeadingInteger_join[of s ss'] noLeadingInteger_literals by blast
qed

lemma parsePacket_lacksId:
  assumes "lacksNumericId rt (JObj f)"
  shows "\<exists>e. parsePacket rt f = Inl e"
proof (cases "map_of f ''Id''")
  case None
  then show ?thesis
    by (simp add: parsePacket_def parsePacketId_def stringOrDefault_def jsParseInt_literals)
next
  case (Some v)
  show ?thesis
  proof (cases v)
    case JNull
    with Some show ?thesis
      by (simp add: parsePacket_def parsePacketId_def stringOrDefault_def jsParseInt_literals)
  next
    case (JBool b)
    with Some show ?thesis
      by (simp add: parsePacket_def parsePacketId_def stringOrDefault_def jsParseInt_literals)
  next
    case (JNum n)
    with Some assms show ?thesis
      by (cases n) (simp_all add: parsePacket_def parsePacketId_def lacksNumericId_def fieldOf_def)
  next
    case (JStr s)
    with Some assms have "jsParseInt s = NaN"
      by (simp add: lacksNumericId_def fieldOf_def jsParseInt_noLeading)
    with Some JStr show ?thesis
      by (simp add: parsePacket_def parsePacketId_def stringOrDefault_def)
  next
    case (JArr xs)
    with Some assms have l: "arrayLacksInteger rt xs"
      by (simp add: lacksNumericId_def fieldOf_def)
    show ?thesis
    proof (cases "jsStrings rt xs")
      case (Inl e)
      with Some JArr show ?thesis
        by (simp add: parsePacket_def parsePacketId_def stringOrDefault_def)
    next
      case (Inr ss)
      with l have "jsParseInt (join '','' ss) = NaN"
        by (simp add: arrayLacksInteger_join jsParseInt_noLeading)
      with Some JArr Inr show ?thesis
        by (simp add: parsePacket_def parsePacketId_def stringOrDefault_def)
    qed
  next
    case (JObj kvs)
    with Some show ?thesis
      by (simp add: parsePacket_def parsePacketId_def stringOrDefault_def jsParseInt_literals)
  qed
qed

lemma those_map_asRecord:
  "those (map asRecord ps) = Some recs \<Longrightarrow> ps = map JObj recs"
proof (induction ps arbitrary: recs)
  case Nil
  then show ?case by simp
next
  case (Cons p ps)
  then show ?case
    by (cases p) (auto split: option.splits)
qed

lemma those_map_JObj: "those (map (asRecord \<circ> JObj) ps) = Some ps"
  by (induction ps) auto

lemma schema_Inr:
  "JsonPtsResponseSchema raw = Inr (proto, recs) \<Longrightarrow>
     fieldOf ''Protocol'' raw = Some (JStr proto) \<and> fieldOf ''Packets'' raw = Some (JArr (map JObj recs))"
  by (auto simp: JsonPtsResponseSchema_def fieldOf_def dest: those_map_asRecord
      split: json.splits option.splits)

lemma parseEnvelope_Inr:
  assumes "parseEnvelope rt raw = Inr rs"
  shows "\<exists>recs packets. fieldOf ''Protocol'' raw = Some (JStr ''jsonPTS'')
           \<and> fieldOf ''Packets'' raw = Some (JArr (map JObj recs))
           \<and> mapE (parsePacket rt) recs = Inr packets \<and> rs = sort_key id_r packets"
proof -
  from assms obtain proto recs where s: "JsonPtsResponseSchema raw = Inr (proto, recs)"
    by (cases "JsonPtsResponseSchema raw") (auto simp: parseEnvelope_def)
  with assms have p: "proto = ''jsonPTS''"
    by (auto simp: parseEnvelope_def split: if_splits)
  with assms s obtain packets where "mapE (parsePacket rt) recs = Inr packets" "rs = sort_key id_r packets"
    by (auto simp: parseEnvelope_def split: sum.splits)
  with schema_Inr[OF s] p show ?thesis by blast
qed

text \<open>
  C5, amended: for every raw JSON input, \<open>parseEnvelope\<close> fails when \<open>Protocol\<close> is
  missing or is not exactly the string \<open>jsonPTS\<close>, when \<open>Packets\<close> is not an array, or
  when any packet lacks a numeric id: its \<open>Id\<close> is absent, \<open>null\<close>, a boolean, an object,
  a number that is not finite, or a string or an array with no leading integer (an element
  of \<open>Packets\<close> that is not an object has no \<open>Id\<close>). A \<open>Protocol\<close> string other than
  \<open>jsonPTS\<close>, on an envelope whose \<open>Packets\<close> are objects, fails with the
  protocol-mismatch error, as \<open>{"Protocol":"other","Packets":[]}\<close> does. A numeric \<open>Id\<close>
  that is not an integer is not refused.
\<close>

theorem parseEnvelope_rejects:
  "(fieldOf ''Protocol'' raw \<noteq> Some (JStr ''jsonPTS'')
      \<or> (\<forall>ps. fieldOf ''Packets'' raw \<noteq> Some (JArr ps))
      \<or> (\<exists>p\<in>set (packetsOf raw). lacksNumericId rt p)
    \<longrightarrow> (\<exists>e. parseEnvelope rt raw = Inl e))
   \<and> (\<forall>proto ps. fieldOf ''Protocol'' raw = Some (JStr proto) \<and> proto \<noteq> ''jsonPTS''
          \<and> fieldOf ''Packets'' raw = Some (JArr (map JObj ps))
        \<longrightarrow> parseEnvelope rt raw = Inl (ProtocolMismatch proto))
   \<and> parseEnvelope rt (JObj [(''Protocol'', JStr ''other''), (''Packets'', JArr [])])
       = Inl (ProtocolMismatch ''other'')"
proof (intro conjI impI allI)
  assume bad: "fieldOf ''Protocol'' raw \<noteq> Some (JStr ''jsonPTS'')
      \<or> (\<forall>ps. fieldOf ''Packets'' raw \<noteq> Some (JArr ps))
      \<or> (\<exists>p\<in>set (packetsOf raw). lacksNumericId rt p)"
  show "\<exists>e. parseEnvelope rt raw = Inl e"
  proof (cases "parseEnvelope rt raw")
    case (Inl e)
    then show ?thesis by blast
  next
    case (Inr rs)
    from parseEnvelope_Inr[OF Inr] obtain recs packets where
      pr: "fieldOf ''Protocol'' raw = Some (JStr ''jsonPTS'')"
      and pk: "fieldOf ''Packets'' raw = Some (JArr (map JObj recs))"
      and m: "mapE (parsePacket rt) recs = Inr packets" by blast
    from bad pr pk obtain p where "p \<in> set (packetsOf raw)" "lacksNumericId rt p" by auto
    with pk obtain f where "f \<in> set recs" "lacksNumericId rt (JObj f)"
      by (auto simp: packetsOf_def)
    with parsePacket_lacksId have "\<exists>x\<in>set recs. \<exists>e. parsePacket rt x = Inl e" by blast
    then have "\<exists>e. mapE (parsePacket rt) recs = Inl e" by (simp add: mapE_Inl_iff)
    with m show ?thesis by simp
  qed
next
  fix proto ps
  assume h: "fieldOf ''Protocol'' raw = Some (JStr proto) \<and> proto \<noteq> ''jsonPTS''
          \<and> fieldOf ''Packets'' raw = Some (JArr (map JObj ps))"
  then obtain kvs where "raw = JObj kvs" by (cases raw) (simp_all add: fieldOf_def)
  with h have "JsonPtsResponseSchema raw = Inr (proto, ps)"
    by (simp add: JsonPtsResponseSchema_def fieldOf_def those_map_JObj)
  with h show "parseEnvelope rt raw = Inl (ProtocolMismatch proto)"
    by (simp add: parseEnvelope_def)
next
  show "parseEnvelope rt (JObj [(''Protocol'', JStr ''other''), (''Packets'', JArr [])])
       = Inl (ProtocolMismatch ''other'')"
    by (simp add: parseEnvelope_def JsonPtsResponseSchema_def)
qed

lemmas codec_simps = parseEnvelope_def JsonPtsResponseSchema_def parsePacket_def parsePacketId_def
  parsePacketError_def optString_def stringOrDefault_def responseEnvelope_def

lemma three_halves_not_int: "(3 / 2 :: rat) \<notin> \<int>"
proof -
  have "\<lfloor>3 / 2 :: rat\<rfloor> = 1" by linarith
  then have "of_int \<lfloor>3 / 2 :: rat\<rfloor> \<noteq> (3 / 2 :: rat)" by simp
  then show ?thesis by (metis Ints_cases of_int_floor_cancel)
qed

text \<open>
  C5, as stated, fails: a packet whose \<open>Id\<close> is the number 1.5 has no integer id, and
  \<open>parseEnvelope\<close> accepts it, with the id 1.5 (the check is \<open>Number.isFinite\<close>).
\<close>

theorem fractional_id_counterexample:
  "fieldOf ''Id'' (JObj pkt_fractional_id) = Some (JNum (Fin (3 / 2)))
   \<and> (3 / 2 :: rat) \<notin> \<int>
   \<and> parseEnvelope rt_stub (responseEnvelope [pkt_fractional_id])
       = Inr [\<lparr> id_r = 3 / 2, type_r = None, error_r = False, code_r = None,
                message_r = None, data_r = None \<rparr>]"
  by (simp add: codec_simps pkt_fractional_id_def fieldOf_def str_simps three_halves_not_int)

lemma nbsp_id_accepted:
  "\<not> lacksNumericId rt_stub (JObj pkt_nbsp_id)
   \<and> parseEnvelope rt_stub (responseEnvelope [pkt_nbsp_id])
       = Inr [\<lparr> id_r = 5, type_r = None, error_r = False, code_r = None, message_r = None,
                data_r = None \<rparr>]"
  by (simp add: codec_simps pkt_nbsp_id_def lacksNumericId_def noLeadingInteger_def fieldOf_def
      jsParseInt_def trimStart_def roundToDouble_def isWhite_def isDigit_def decimalValue_def
      digitVal_def str_simps)

theorem parseEnvelope_rejects_witness:
  "fieldOf ''Protocol'' raw_no_protocol = None
   \<and> parseEnvelope rt_stub raw_no_protocol = Inl ZodError
   \<and> fieldOf ''Packets'' raw_bad_packets = Some (JStr ''none'')
   \<and> parseEnvelope rt_stub raw_bad_packets = Inl ZodError
   \<and> lacksNumericId rt_stub (JObj pkt_no_id)
   \<and> packetsOf (responseEnvelope [pkt_no_id]) = [JObj pkt_no_id]
   \<and> parseEnvelope rt_stub (responseEnvelope [pkt_no_id]) = Inl MissingId
   \<and> lacksNumericId rt_stub (JObj pkt_array_id)
   \<and> packetsOf (responseEnvelope [pkt_array_id]) = [JObj pkt_array_id]
   \<and> parseEnvelope rt_stub (responseEnvelope [pkt_array_id]) = Inl MissingId"
proof -
  have a: "lacksNumericId rt_stub (JObj pkt_no_id)" "lacksNumericId rt_stub (JObj pkt_array_id)"
    by (simp_all add: lacksNumericId_def fieldOf_def pkt_no_id_def pkt_array_id_def)
  have b: "packetsOf (responseEnvelope [pkt_no_id]) = [JObj pkt_no_id]"
    "packetsOf (responseEnvelope [pkt_array_id]) = [JObj pkt_array_id]"
    by (simp_all add: packetsOf_def fieldOf_def responseEnvelope_def)
  have c: "fieldOf ''Protocol'' raw_no_protocol = None"
    by (simp add: fieldOf_def raw_no_protocol_def)
  have d: "fieldOf ''Packets'' raw_bad_packets = Some (JStr ''none'')"
    by (simp add: fieldOf_def raw_bad_packets_def)
  have e: "parseEnvelope rt_stub raw_no_protocol = Inl ZodError"
    "parseEnvelope rt_stub raw_bad_packets = Inl ZodError"
    "parseEnvelope rt_stub (responseEnvelope [pkt_no_id]) = Inl MissingId"
    "parseEnvelope rt_stub (responseEnvelope [pkt_array_id]) = Inl MissingId"
    by (simp_all add: codec_simps raw_no_protocol_def raw_bad_packets_def pkt_no_id_def
        pkt_array_id_def jsParseInt_literals)
  from parseEnvelope_rejects [of "responseEnvelope [pkt_no_id]" rt_stub]
    parseEnvelope_rejects [of "responseEnvelope [pkt_array_id]" rt_stub]
    parseEnvelope_rejects [of raw_no_protocol rt_stub]
    parseEnvelope_rejects [of raw_bad_packets rt_stub] a b c d e
  show ?thesis by simp
qed

text \<open>
  C6, as stated, fails: two packets with the same \<open>Id\<close> keep their order of arrival (the
  sort is stable), so that two envelopes whose packets are permutations of each other are
  both accepted and give different sequences.
\<close>

theorem duplicate_id_counterexample:
  "mset (packetsOf (responseEnvelope [pkt_a, pkt_b])) = mset (packetsOf (responseEnvelope [pkt_b, pkt_a]))
   \<and> parseEnvelope rt_stub (responseEnvelope [pkt_a, pkt_b]) = Inr [resp_a, resp_b]
   \<and> parseEnvelope rt_stub (responseEnvelope [pkt_b, pkt_a]) = Inr [resp_b, resp_a]
   \<and> [resp_a, resp_b] \<noteq> [resp_b, resp_a]"
  by (simp add: codec_simps packetsOf_def fieldOf_def pkt_a_def pkt_b_def resp_a_def resp_b_def str_simps)

lemma mset_map_JObj:
  assumes "mset (map JObj xs) = mset (map JObj ys)"
  shows "mset xs = mset ys"
proof -
  let ?un = "\<lambda>j. the (asRecord j)"
  have "mset (map ?un (map JObj xs)) = mset (map ?un (map JObj ys))"
    using assms by (metis mset_map)
  then show ?thesis by (simp add: comp_def)
qed

text \<open>
  C6, amended: the sequence that \<open>parseEnvelope\<close> returns is sorted ascending by id; and
  for any two accepted envelopes whose \<open>Packets\<close> arrays are permutations of each other
  and whose ids are pairwise distinct, \<open>parseEnvelope\<close> returns the same sequence.
\<close>

theorem parseEnvelope_sorted_perm:
  assumes a: "parseEnvelope rt raw = Inr rs"
  shows "sorted (map id_r rs)
         \<and> (\<forall>raw' rs'. parseEnvelope rt raw' = Inr rs'
               \<and> mset (packetsOf raw') = mset (packetsOf raw)
               \<and> distinct (map id_r rs) \<longrightarrow> rs' = rs)"
proof (intro conjI allI impI)
  from parseEnvelope_Inr[OF a] obtain recs packets where
    pk: "fieldOf ''Packets'' raw = Some (JArr (map JObj recs))"
    and m: "mapE (parsePacket rt) recs = Inr packets" and rs: "rs = sort_key id_r packets"
    by blast
  show "sorted (map id_r rs)" by (simp add: rs)
  fix raw' rs'
  assume h: "parseEnvelope rt raw' = Inr rs'
               \<and> mset (packetsOf raw') = mset (packetsOf raw)
               \<and> distinct (map id_r rs)"
  then have a': "parseEnvelope rt raw' = Inr rs'" by simp
  from parseEnvelope_Inr[OF a'] obtain recs' packets' where
    pk': "fieldOf ''Packets'' raw' = Some (JArr (map JObj recs'))"
    and m': "mapE (parsePacket rt) recs' = Inr packets'" and rs': "rs' = sort_key id_r packets'"
    by blast
  from h pk pk' have "mset (map JObj recs') = mset (map JObj recs)"
    by (simp add: packetsOf_def)
  then have mr: "mset recs' = mset recs" by (rule mset_map_JObj)
  let ?g = "\<lambda>x. projr (parsePacket rt x)"
  have "packets = map ?g recs" "packets' = map ?g recs'"
    using m m' by (auto dest: mapE_Inr_map)
  with mr have mp: "mset packets = mset packets'" by (metis mset_map)
  have "mset (map id_r rs) = mset (map id_r packets)" by (simp add: rs)
  with h have "distinct (map id_r packets)" by (metis mset_eq_imp_distinct_iff)
  with mp have "sort_key id_r packets = sort_key id_r packets'" by (rule sort_key_perm_distinct)
  then show "rs' = rs" by (simp add: rs rs')
qed

theorem parseEnvelope_sorted_perm_witness:
  "parseEnvelope rt_stub (responseEnvelope [pkt_c, pkt_a]) = Inr [resp_a, resp_c]
   \<and> parseEnvelope rt_stub (responseEnvelope [pkt_a, pkt_c]) = Inr [resp_a, resp_c]
   \<and> mset (packetsOf (responseEnvelope [pkt_a, pkt_c])) = mset (packetsOf (responseEnvelope [pkt_c, pkt_a]))
   \<and> distinct (map id_r [resp_a, resp_c])
   \<and> sorted (map id_r [resp_a, resp_c])"
proof -
  have l1: "parseEnvelope rt_stub (responseEnvelope [pkt_c, pkt_a]) = Inr [resp_a, resp_c]"
    by (simp add: codec_simps pkt_a_def pkt_c_def resp_a_def resp_c_def str_simps)
  have l2: "parseEnvelope rt_stub (responseEnvelope [pkt_a, pkt_c]) = Inr [resp_a, resp_c]"
    by (simp add: codec_simps pkt_a_def pkt_c_def resp_a_def resp_c_def str_simps)
  have m: "mset (packetsOf (responseEnvelope [pkt_a, pkt_c])) = mset (packetsOf (responseEnvelope [pkt_c, pkt_a]))"
    by (simp add: packetsOf_def fieldOf_def responseEnvelope_def)
  have d: "distinct (map id_r [resp_a, resp_c])"
    by (simp add: resp_a_def resp_c_def)
  from parseEnvelope_sorted_perm [OF l1] l1 l2 m d show ?thesis by blast
qed

lemma packetsOf_buildEnvelope:
  "packetsOf (buildEnvelope reqs) = map (\<lambda>(i, p). buildPacket i p) (enumerate 0 reqs)"
  by (simp add: packetsOf_def fieldOf_def buildEnvelope_def)

lemma packetsOf_buildEnvelope_nth:
  "i < length reqs \<Longrightarrow> packetsOf (buildEnvelope reqs) ! i = buildPacket i (reqs ! i)"
  by (simp add: packetsOf_buildEnvelope nth_enumerate_eq)

lemma jsString_stringable:
  "(\<exists>s. jsString rt v = Inr s) \<longleftrightarrow> stringable v"
  "(\<exists>ss. jsStrings rt vs = Inr ss) \<longleftrightarrow> stringables vs"
proof (induction rt v and rt vs rule: jsString_jsStrings.induct)
  case (5 rt xs)
  then show ?case by (cases "jsStrings rt xs") auto
next
  case (8 rt x xs)
  show ?case
  proof (cases "x = JNull")
    case True
    with 8 show ?thesis by (cases "jsStrings rt xs") auto
  next
    case False
    with 8 show ?thesis
      by (cases "jsString rt x"; cases "jsStrings rt xs") auto
  qed
qed auto

lemma optString_convertible:
  "(\<exists>s. optString rt (map_of f k) = Inr s) \<longleftrightarrow> convertibleField f k"
proof (cases "map_of f k")
  case None
  then show ?thesis by (simp add: optString_def convertibleField_def)
next
  case (Some v)
  then show ?thesis
    using jsString_stringable(1)[of rt v]
    by (cases "jsString rt v") (auto simp: optString_def convertibleField_def)
qed

lemma parsePacketError_convertible:
  "(\<exists>b. parsePacketError rt f = Inr b) \<longleftrightarrow> convertibleField f ''Error''"
proof (cases "map_of f ''Error''")
  case None
  then show ?thesis by (simp add: parsePacketError_def stringOrDefault_def convertibleField_def)
next
  case (Some v)
  then show ?thesis
    using jsString_stringable(1)[of rt v]
    by (cases v) (auto simp: parsePacketError_def stringOrDefault_def convertibleField_def split: sum.splits)
qed

lemma parsePacket_convertible:
  assumes "parsePacket rt f = Inr r"
  shows "convertiblePacket f"
proof -
  from assms have "(\<exists>b. parsePacketError rt f = Inr b)" "(\<exists>s. optString rt (map_of f ''Type'') = Inr s)"
    "(\<exists>s. optString rt (map_of f ''Code'') = Inr s)" "(\<exists>s. optString rt (map_of f ''Message'') = Inr s)"
    by (auto simp: parsePacket_def split: sum.splits jsnum.splits)
  then show ?thesis
    by (simp add: convertiblePacket_def optString_convertible parsePacketError_convertible)
qed

lemma parsePacket_numeric_id:
  assumes "convertiblePacket f" and "map_of f ''Id'' = Some (JNum (Fin q))"
  shows "\<exists>r. parsePacket rt f = Inr r \<and> id_r r = q"
proof -
  from assms(1) obtain b ty co msg where
    "parsePacketError rt f = Inr b" "optString rt (map_of f ''Type'') = Inr ty"
    "optString rt (map_of f ''Code'') = Inr co" "optString rt (map_of f ''Message'') = Inr msg"
    unfolding convertiblePacket_def
    using parsePacketError_convertible[of rt f] optString_convertible[of rt f] by blast
  with assms(2) show ?thesis
    by (simp add: parsePacket_def parsePacketId_def)
qed

lemma schema_responseEnvelope: "JsonPtsResponseSchema (responseEnvelope ps) = Inr (''jsonPTS'', ps)"
  by (simp add: JsonPtsResponseSchema_def responseEnvelope_def those_map_JObj)

lemma parsePacket_id:
  assumes "parsePacket rt f = Inr r" and "map_of f ''Id'' = Some (JNum (Fin q))"
  shows "id_r r = q"
  using assms by (auto simp: parsePacket_def parsePacketId_def split: sum.splits)

text \<open>
  C7, as stated, fails: a response packet with the matching id whose \<open>Type\<close> is an object
  with an own \<open>toString\<close> key makes \<open>String(p.Type)\<close> throw, and decoding yields no
  responses.
\<close>

theorem unconvertible_type_counterexample:
  "map (\<lambda>f. map_of f ''Id'') [pkt_bad_type] = map (fieldOf ''Id'') (packetsOf (buildEnvelope reqs_one))
   \<and> parseEnvelope rt_stub (responseEnvelope [pkt_bad_type]) = Inl TypeError"
  by (simp add: codec_simps packetsOf_def fieldOf_def buildEnvelope_def buildPacket_def
      reqs_one_def pkt_bad_type_def str_simps)

text \<open>
  C7, amended: \<open>buildEnvelope\<close> gives the packet at position \<open>i\<close> the id \<open>i\<close>, its type,
  and the key \<open>Data\<close> exactly when the request has data. For every list of \<open>N\<close> requests
  and every list of response packets whose \<open>Id\<close> fields are, position by position, those
  of the encoded requests, decoding the response envelope is decoding the packets one by one,
  in their order. It yields responses exactly when every packet is convertible (no
  \<open>Error\<close>, \<open>Type\<close>, \<open>Code\<close> or \<open>Message\<close> on which \<open>String\<close> throws); the responses
  are then \<open>N\<close>, and the response at position \<open>i\<close> is the decoded packet at position \<open>i\<close>
  and has the id \<open>i\<close>.
\<close>

theorem encode_decode_round_trip:
  assumes ids: "map (\<lambda>f. map_of f ''Id'') ps = map (fieldOf ''Id'') (packetsOf (buildEnvelope reqs))"
  shows "length (packetsOf (buildEnvelope reqs)) = length reqs
     \<and> (\<forall>i<length reqs. packetsOf (buildEnvelope reqs) ! i
            = JObj ([(''Id'', JNum (Fin (of_nat i))), (''Type'', JStr (type_q (reqs ! i)))]
                    @ (case data_q (reqs ! i) of None \<Rightarrow> [] | Some d \<Rightarrow> [(''Data'', d)])))
     \<and> parseEnvelope rt (responseEnvelope ps) = mapE (parsePacket rt) ps
     \<and> (\<forall>rs. parseEnvelope rt (responseEnvelope ps) = Inr rs \<longrightarrow>
            length rs = length reqs
            \<and> (\<forall>i<length reqs. id_r (rs ! i) = of_nat i \<and> parsePacket rt (ps ! i) = Inr (rs ! i)))
     \<and> ((\<exists>rs. parseEnvelope rt (responseEnvelope ps) = Inr rs) \<longleftrightarrow>
            (\<forall>f\<in>set ps. convertiblePacket f))"
proof -
  have len: "length (packetsOf (buildEnvelope reqs)) = length reqs"
    by (simp add: packetsOf_buildEnvelope)
  have form: "\<forall>i<length reqs. packetsOf (buildEnvelope reqs) ! i
            = JObj ([(''Id'', JNum (Fin (of_nat i))), (''Type'', JStr (type_q (reqs ! i)))]
                    @ (case data_q (reqs ! i) of None \<Rightarrow> [] | Some d \<Rightarrow> [(''Data'', d)]))"
    by (simp add: packetsOf_buildEnvelope_nth buildPacket_def)
  from ids have lps: "length ps = length reqs"
    using len by (metis length_map)
  have idi: "map_of (ps ! i) ''Id'' = Some (JNum (Fin (of_nat i)))" if "i < length reqs" for i
  proof -
    have "map_of (ps ! i) ''Id'' = map (\<lambda>f. map_of f ''Id'') ps ! i"
      using that lps by simp
    also have "\<dots> = fieldOf ''Id'' (packetsOf (buildEnvelope reqs) ! i)"
      using that len by (simp add: ids)
    also have "\<dots> = Some (JNum (Fin (of_nat i)))"
      using that by (simp add: packetsOf_buildEnvelope_nth buildPacket_def fieldOf_def)
    finally show ?thesis .
  qed
  have decoded: "length rs = length reqs
      \<and> (\<forall>i<length reqs. id_r (rs ! i) = of_nat i \<and> parsePacket rt (ps ! i) = Inr (rs ! i))"
    if m: "mapE (parsePacket rt) ps = Inr rs" for rs
  proof -
    from m have a: "list_all2 (\<lambda>x y. parsePacket rt x = Inr y) ps rs" by (rule mapE_Inr_all2)
    then have l: "length rs = length reqs" using lps by (simp add: list_all2_lengthD)
    have "id_r (rs ! i) = of_nat i \<and> parsePacket rt (ps ! i) = Inr (rs ! i)"
      if "i < length reqs" for i
    proof -
      from a that lps have p: "parsePacket rt (ps ! i) = Inr (rs ! i)"
        by (simp add: list_all2_conv_all_nth)
      from parsePacket_id[OF p idi[OF that]] p show ?thesis by simp
    qed
    with l show ?thesis by simp
  qed
  have same: "parseEnvelope rt (responseEnvelope ps) = mapE (parsePacket rt) ps"
  proof (cases "mapE (parsePacket rt) ps")
    case (Inl e)
    then show ?thesis by (simp add: parseEnvelope_def schema_responseEnvelope)
  next
    case (Inr rs)
    from decoded[OF Inr] have "sorted (map id_r rs)"
      by (auto simp: sorted_iff_nth_mono)
    then have "sort_key id_r rs = rs" by (rule sort_key_id_if_sorted)
    with Inr show ?thesis by (simp add: parseEnvelope_def schema_responseEnvelope)
  qed
  have yields: "\<exists>rs. parseEnvelope rt (responseEnvelope ps) = Inr rs"
    if sc: "\<forall>f\<in>set ps. convertiblePacket f"
  proof -
    have "\<exists>r. parsePacket rt (ps ! i) = Inr r" if "i < length ps" for i
    proof -
      from that sc have "convertiblePacket (ps ! i)" by simp
      from parsePacket_numeric_id[OF this idi] that lps show ?thesis by auto
    qed
    then have "\<not> (\<exists>f\<in>set ps. \<exists>e. parsePacket rt f = Inl e)"
      by (fastforce simp: in_set_conv_nth)
    then have "\<not> (\<exists>e. mapE (parsePacket rt) ps = Inl e)" by (simp add: mapE_Inl_iff)
    then obtain rs where "mapE (parsePacket rt) ps = Inr rs"
      by (cases "mapE (parsePacket rt) ps") auto
    with same show ?thesis by simp
  qed
  have only: "\<forall>f\<in>set ps. convertiblePacket f"
    if "parseEnvelope rt (responseEnvelope ps) = Inr rs" for rs
  proof
    fix f
    assume f: "f \<in> set ps"
    from that same have "list_all2 (\<lambda>x y. parsePacket rt x = Inr y) ps rs"
      by (simp add: mapE_Inr_all2)
    with f obtain r where "parsePacket rt f = Inr r"
      by (auto simp: list_all2_conv_all_nth in_set_conv_nth)
    then show "convertiblePacket f" by (rule parsePacket_convertible)
  qed
  have "(\<exists>rs. parseEnvelope rt (responseEnvelope ps) = Inr rs) \<longleftrightarrow>
            (\<forall>f\<in>set ps. convertiblePacket f)"
    using yields only by blast
  with len form same decoded show ?thesis by (simp add: same)
qed

theorem encode_decode_round_trip_witness:
  "map (\<lambda>f. map_of f ''Id'') [pkt_a, pkt_c] = map (fieldOf ''Id'') (packetsOf (buildEnvelope reqs_two))
   \<and> convertiblePacket pkt_a \<and> convertiblePacket pkt_c
   \<and> length (packetsOf (buildEnvelope reqs_two)) = 2
   \<and> mapE (parsePacket rt_stub) [pkt_a, pkt_c] = Inr [resp_a, resp_c]
   \<and> parseEnvelope rt_stub (responseEnvelope [pkt_a, pkt_c]) = Inr [resp_a, resp_c]"
proof -
  have h1: "map (\<lambda>f. map_of f ''Id'') [pkt_a, pkt_c]
              = map (fieldOf ''Id'') (packetsOf (buildEnvelope reqs_two))"
    by (simp add: packetsOf_buildEnvelope reqs_two_def buildPacket_def fieldOf_def pkt_a_def
        pkt_c_def enumerate_eq_zip upt_rec)
  have h2: "convertiblePacket pkt_a" "convertiblePacket pkt_c"
    by (simp_all add: convertiblePacket_def convertibleField_def pkt_a_def pkt_c_def)
  have m: "mapE (parsePacket rt_stub) [pkt_a, pkt_c] = Inr [resp_a, resp_c]"
    by (simp add: codec_simps pkt_a_def pkt_c_def resp_a_def resp_c_def str_simps)
  from encode_decode_round_trip [OF h1, of rt_stub] h1 h2 m show ?thesis
    by (simp add: reqs_two_def)
qed

section \<open>Properties of the digest authenticator\<close>

lemma matchDigestPrefix_Some:
  "matchDigestPrefix h = Some r \<longleftrightarrow>
     toLowerCase (take 6 (dropWhile isWhite h)) = ''digest''
     \<and> drop 6 (dropWhile isWhite h) \<noteq> []
     \<and> isWhite (hd (drop 6 (dropWhile isWhite h)))
     \<and> \<not> list_ex isLineTerminator (dropWhile isWhite (drop 6 (dropWhile isWhite h)))
     \<and> r = dropWhile isWhite (drop 6 (dropWhile isWhite h))"
  unfolding matchDigestPrefix_def Let_def by (auto split: if_splits)

lemma matchDigestPrefix_shaped:
  assumes "matchDigestPrefix h = Some r"
  shows "digestShaped h"
proof -
  define t where "t = dropWhile isWhite h"
  define u where "u = drop 6 t"
  from assms have c: "toLowerCase (take 6 t) = ''digest'' \<and> u \<noteq> []
    \<and> isWhite (hd u) \<and> \<not> list_ex isLineTerminator (dropWhile isWhite u)"
    by (simp add: matchDigestPrefix_Some t_def u_def)
  have e: "h = takeWhile isWhite h @ take 6 t @ takeWhile isWhite u @ dropWhile isWhite u"
    by (simp add: t_def u_def)
  have w1: "list_all isWhite (takeWhile isWhite h)" and w2: "list_all isWhite (takeWhile isWhite u)"
    by (auto simp: list_all_iff dest: set_takeWhileD)
  have ne: "takeWhile isWhite u \<noteq> []"
    using c by (cases u) auto
  show ?thesis
    unfolding digestShaped_def
    apply (rule exI[of _ "takeWhile isWhite h"])
    apply (rule exI[of _ "take 6 t"])
    apply (rule exI[of _ "takeWhile isWhite u"])
    apply (rule exI[of _ "dropWhile isWhite u"])
    using e w1 c ne w2 apply simp
    done
qed

lemma lowerChar_white:
  assumes "isWhite c"
  shows "lowerChar c = c"
proof -
  from assms consider "c = CHR 0x09" | "c = CHR 0x0A" | "c = CHR 0x0B" | "c = CHR 0x0C"
    | "c = CHR 0x0D" | "c = CHR '' ''" | "c = CHR 0xA0"
    by (auto simp: isWhite_def)
  then show ?thesis
    by cases (simp_all add: lowerChar_def upperLetters_def lowerLetters_def)
qed

lemma not_white_d: "lowerChar c = CHR ''d'' \<Longrightarrow> \<not> isWhite c"
proof
  assume a: "lowerChar c = CHR ''d''" and w: "isWhite c"
  from w have "lowerChar c = c" by (rule lowerChar_white)
  with a have "c = CHR ''d''" by simp
  with w show False by (simp add: isWhite_def)
qed

lemma shaped_matchDigestPrefix:
  assumes "digestShaped h"
  shows "\<exists>r. matchDigestPrefix h = Some r"
proof -
  from assms obtain ws tok sp rest where h: "h = ws @ tok @ sp @ rest"
    and ws: "list_all isWhite ws" and tok: "toLowerCase tok = ''digest''"
    and sp: "sp \<noteq> []" "list_all isWhite sp" and rest: "\<not> list_ex isLineTerminator rest"
    unfolding digestShaped_def by blast
  have "length (toLowerCase tok) = length ''digest''" by (simp only: tok)
  then have l6: "length tok = 6" by (simp add: toLowerCase_def)
  from tok obtain c cs where tc: "tok = c # cs" "lowerChar c = CHR ''d''"
    by (cases tok) (auto simp: toLowerCase_def)
  then have nw: "\<not> isWhite c" by (simp add: not_white_d)
  have t: "dropWhile isWhite h = tok @ sp @ rest"
    using ws nw tc(1) by (simp add: h list_all_iff dropWhile_append)
  have "dropWhile isWhite (sp @ rest) = dropWhile isWhite rest"
    using sp(2) by (simp add: list_all_iff dropWhile_append)
  moreover have "set (dropWhile isWhite rest) \<subseteq> set rest" by (auto dest: set_dropWhileD)
  ultimately have nl: "\<not> list_ex isLineTerminator (dropWhile isWhite (sp @ rest))"
    using rest by (auto simp: list_ex_iff)
  have "isWhite (hd (sp @ rest))" using sp by (cases sp) auto
  with t l6 tok sp(1) nl show ?thesis
    by (simp add: matchDigestPrefix_def Let_def)
qed

lemma match_hdr_digest:
  "matchDigestPrefix hdr_digest = Some (join '', '' [quoted ''realm'' ''pts'', quoted ''nonce'' ''abc'', quoted ''qop'' ''auth''])"
  by (simp add: hdr_digest_def matchDigestPrefix_def quoted_def isWhite_def isLineTerminator_def str_simps)

lemma split_hdr_digest:
  "splitAuthParams (join '', '' [quoted ''realm'' ''pts'', quoted ''nonce'' ''abc'', quoted ''qop'' ''auth''])
    = [quoted ''realm'' ''pts'', quoted ''nonce'' ''abc'', quoted ''qop'' ''auth'']"
  by (simp add: splitAuthParams_def quoted_def trim_def isWhite_def)

lemma parse_hdr_digest: "parseDigestChallenge hdr_digest = Inr ch_digest"
proof -
  have "foldl addParam Map.empty [quoted ''realm'' ''pts'', quoted ''nonce'' ''abc'', quoted ''qop'' ''auth'']
          = ch_digest"
    by (simp add: addParam_def quoted_def unquote_def startsWith_def endsWith_def trim_def
        isWhite_def ch_digest_def)
  then show ?thesis
    by (simp only: parseDigestChallenge_def match_hdr_digest split_hdr_digest option.case)
qed

text \<open>
  C8, amended: for every header string, \<open>parseDigestChallenge\<close> fails, with the
  malformed-challenge error and no other, exactly when the header is not of the shape of
  the pattern: optional white space, the word \<open>Digest\<close> in any case, at least one
  white-space character, and a rest without a line terminator. For every header of that
  shape it returns an attribute set. In particular it fails for every header that does not
  start (after white space) with the word \<open>Digest\<close>.
\<close>

theorem parseDigestChallenge_fails_iff:
  "(parseDigestChallenge h = Inl NotDigestChallenge \<longleftrightarrow> \<not> digestShaped h)
   \<and> (digestShaped h \<longrightarrow> (\<exists>ch. parseDigestChallenge h = Inr ch))
   \<and> (\<forall>e. parseDigestChallenge h = Inl e \<longrightarrow> e = NotDigestChallenge)
   \<and> (toLowerCase (take 6 (dropWhile isWhite h)) \<noteq> ''digest''
        \<longrightarrow> parseDigestChallenge h = Inl NotDigestChallenge)"
proof -
  have a: "digestShaped h \<longleftrightarrow> matchDigestPrefix h \<noteq> None"
    using matchDigestPrefix_shaped[of h] shaped_matchDigestPrefix[of h] by auto
  have b: "toLowerCase (take 6 (dropWhile isWhite h)) \<noteq> ''digest'' \<Longrightarrow> matchDigestPrefix h = None"
    by (simp add: matchDigestPrefix_def Let_def)
  show ?thesis
    using b unfolding a parseDigestChallenge_def by (auto split: option.splits)
qed

text \<open>
  C8, as stated, fails: the header that is the bare token \<open>Digest\<close> starts with the
  token, and parsing fails (the pattern asks for white space after it).
\<close>

theorem bare_digest_counterexample:
  "startsWith hdr_bare ''Digest'' \<and> parseDigestChallenge hdr_bare = Inl NotDigestChallenge"
  by (simp add: hdr_bare_def startsWith_def parseDigestChallenge_def matchDigestPrefix_def
      isWhite_def str_simps)


theorem parseDigestChallenge_fails_iff_witness:
  "digestShaped hdr_digest \<and> parseDigestChallenge hdr_digest = Inr ch_digest
   \<and> digestShaped hdr_nbsp \<and> parseDigestChallenge hdr_nbsp = Inr [''realm'' \<mapsto> ''x'']
   \<and> toLowerCase (take 6 (dropWhile isWhite ''Basic realm'')) \<noteq> ''digest''
   \<and> parseDigestChallenge ''Basic realm'' = Inl NotDigestChallenge"
proof -
  have s: "digestShaped hdr_digest"
    using match_hdr_digest by (rule matchDigestPrefix_shaped)
  have n: "toLowerCase (take 6 (dropWhile isWhite ''Basic realm'')) \<noteq> ''digest''"
    by (simp add: isWhite_def str_simps)
  have m: "matchDigestPrefix hdr_nbsp = Some ''realm=x''"
    by (simp add: hdr_nbsp_def matchDigestPrefix_def isWhite_def isLineTerminator_def str_simps)
  have p: "parseDigestChallenge hdr_nbsp = Inr [''realm'' \<mapsto> ''x'']"
    by (simp add: parseDigestChallenge_def m splitAuthParams_def addParam_def unquote_def
        startsWith_def endsWith_def trim_def isWhite_def)
  from parseDigestChallenge_fails_iff [of hdr_nbsp] p have sn: "digestShaped hdr_nbsp"
    by auto
  from parseDigestChallenge_fails_iff [of hdr_digest] parseDigestChallenge_fails_iff [of "''Basic realm''"]
    s n parse_hdr_digest sn p
  show ?thesis by simp
qed

lemma hexVal_hexChar_all: "\<forall>m\<in>set [0 ..< 16]. hexVal (hexChar m) = m \<and> hexChar m \<in> set ''0123456789abcdef''"
  by code_simp

lemma hexVal_hexChar: "hexVal (hexChar d) = d mod 16"
proof -
  have "d mod 16 \<in> set [0 ..< 16]" by simp
  with hexVal_hexChar_all have "hexVal (hexChar (d mod 16)) = d mod 16" by blast
  then show ?thesis by (simp add: hexChar_def)
qed

lemma hexChar_in: "hexChar d \<in> set ''0123456789abcdef''"
proof -
  have "d mod 16 \<in> set [0 ..< 16]" by simp
  with hexVal_hexChar_all have "hexChar (d mod 16) \<in> set ''0123456789abcdef''" by blast
  then show ?thesis by (simp add: hexChar_def)
qed

lemma toHex_chars: "set (toHex n) \<subseteq> set ''0123456789abcdef''"
proof (induction n rule: toHex.induct)
  case (1 n)
  show ?case
  proof (cases "n < 16")
    case True
    then show ?thesis using hexChar_in[of n] by (simp add: toHex.simps)
  next
    case False
    with 1 have "set (toHex (n div 16)) \<subseteq> set ''0123456789abcdef''" by simp
    with False show ?thesis
      using hexChar_in[of "n mod 16"] by (subst toHex.simps) simp
  qed
qed

lemma fromHex_snoc: "fromHex (s @ [c]) = 16 * fromHex s + hexVal c"
  by (simp add: fromHex_def)

lemma fromHex_toHex: "fromHex (toHex n) = n"
proof (induction n rule: toHex.induct)
  case (1 n)
  show ?case
  proof (cases "n < 16")
    case True
    then show ?thesis by (simp add: toHex.simps fromHex_def hexVal_hexChar)
  next
    case False
    with 1 have "fromHex (toHex (n div 16)) = n div 16" by simp
    with False show ?thesis
      by (subst toHex.simps) (simp add: fromHex_snoc hexVal_hexChar)
  qed
qed

lemma hexVal_zero: "hexVal CHR ''0'' = 0"
  by (simp add: hexVal_def)

lemma fromHex_zeros: "fromHex (replicate k CHR ''0'' @ s) = fromHex s"
proof -
  have "foldl (\<lambda>acc c. 16 * acc + hexVal c) 0 (replicate k CHR ''0'') = 0"
    by (induction k) (simp_all add: hexVal_zero)
  then show ?thesis by (simp add: fromHex_def)
qed

lemma toHex_length_le: "0 < k \<Longrightarrow> n < 16 ^ k \<Longrightarrow> length (toHex n) \<le> k"
proof (induction k arbitrary: n)
  case 0
  then show ?case by simp
next
  case (Suc k)
  show ?case
  proof (cases "n < 16")
    case True
    then show ?thesis by (simp add: toHex.simps)
  next
    case False
    with Suc.prems have k: "0 < k" by (cases k) auto
    from Suc.prems have "n div 16 < 16 ^ k"
      by (simp add: less_mult_imp_div_less mult.commute)
    with Suc.IH k have "length (toHex (n div 16)) \<le> k" by simp
    with False show ?thesis by (subst toHex.simps) simp
  qed
qed

lemma ncStr_props:
  "8 \<le> length (ncStr n) \<and> (n < 2 ^ 32 \<longrightarrow> length (ncStr n) = 8)
   \<and> set (ncStr n) \<subseteq> set ''0123456789abcdef'' \<and> fromHex (ncStr n) = n"
proof -
  have "n < 2 ^ 32 \<Longrightarrow> length (toHex n) \<le> 8"
    using toHex_length_le[of 8 n] by simp
  moreover have "set (replicate (8 - length (toHex n)) CHR ''0'') \<subseteq> set ''0123456789abcdef''"
    by auto
  ultimately show ?thesis
    using toHex_chars[of n] by (auto simp: ncStr_def padStart_def fromHex_zeros fromHex_toHex)
qed

lemma replicate_numeral: "replicate (numeral k) x = x # replicate (pred_numeral k) x"
  by (simp add: numeral_eq_Suc)


lemma parts_without_qop:
  assumes "pickQop (challenge p ''qop'') = None"
      and "part \<in> set (digestParts rt cnonce p)"
  shows "\<not> startsWith part ''qop='' \<and> \<not> startsWith part ''nc='' \<and> \<not> startsWith part ''cnonce=''"
  using assms
  by (auto simp: digestParts_def optPart_def quoted_def startsWith_def split: option.splits if_splits)

lemma splitLoop_plain:
  "CHR 0x22 \<notin> set w \<Longrightarrow> q \<or> CHR '','' \<notin> set w \<Longrightarrow>
   splitLoop (w @ rest) cur q out = splitLoop rest (cur @ w) q out"
  by (induction w arbitrary: cur) (auto simp: Let_def)

lemma splitLoop_quoted:
  assumes "CHR 0x22 \<notin> set k" "CHR '','' \<notin> set k" "CHR 0x22 \<notin> set v"
  shows "splitLoop (quoted k v @ rest) cur False out = splitLoop rest (cur @ quoted k v) False out"
proof -
  have "splitLoop (quoted k v @ rest) cur False out
          = splitLoop ((k @ ''='') @ (CHR 0x22 # (v @ (CHR 0x22 # rest)))) cur False out"
    by (simp add: quoted_def)
  also have "\<dots> = splitLoop (CHR 0x22 # (v @ (CHR 0x22 # rest))) (cur @ k @ ''='') False out"
    using assms by (subst splitLoop_plain) auto
  also have "\<dots> = splitLoop (v @ (CHR 0x22 # rest)) (cur @ k @ ''='' @ [CHR 0x22]) True out"
    by simp
  also have "\<dots> = splitLoop (CHR 0x22 # rest) ((cur @ k @ ''='' @ [CHR 0x22]) @ v) True out"
    using assms by (subst splitLoop_plain) auto
  also have "\<dots> = splitLoop rest (cur @ quoted k v) False out"
    by (simp add: quoted_def)
  finally show ?thesis .
qed

lemma trim_space: "trim (CHR '' '' # y) = trim y"
  by (simp add: trim_def isWhite_def)

lemma splitLoop_join:
  assumes "\<And>p cur rest out. p \<in> set (x # xs) \<Longrightarrow>
             splitLoop (p @ rest) cur False out = splitLoop rest (cur @ p) False out"
  shows "splitLoop (join '', '' (x # xs)) cur False out
           = (out @ map trim (butlast ((cur @ x) # map (\<lambda>y. CHR '' '' # y) xs)),
              last ((cur @ x) # map (\<lambda>y. CHR '' '' # y) xs))"
  using assms
proof (induction xs arbitrary: x cur out)
  case Nil
  from Nil[of x "[]" cur out] show ?case by simp
next
  case (Cons y ys)
  have "splitLoop (join '', '' (x # y # ys)) cur False out
          = splitLoop (x @ ('', '' @ join '', '' (y # ys))) cur False out"
    by simp
  also have "\<dots> = splitLoop ('', '' @ join '', '' (y # ys)) (cur @ x) False out"
    by (rule Cons.prems) simp
  also have "\<dots> = splitLoop (join '', '' (y # ys)) '' '' False (out @ [trim (cur @ x)])"
    by simp
  also have "\<dots> = ((out @ [trim (cur @ x)]) @ map trim (butlast (('' '' @ y) # map (\<lambda>y. CHR '' '' # y) ys)),
              last (('' '' @ y) # map (\<lambda>y. CHR '' '' # y) ys))"
    by (rule Cons.IH) (simp add: Cons.prems)
  finally show ?case by simp
qed

lemma splitAuthParams_join:
  assumes cl: "\<And>p cur rest out. p \<in> set (x # xs) \<Longrightarrow>
             splitLoop (p @ rest) cur False out = splitLoop rest (cur @ p) False out"
      and ne: "\<And>p. p \<in> set (x # xs) \<Longrightarrow> trim p \<noteq> []"
  shows "splitAuthParams (join '', '' (x # xs)) = map trim (x # xs)"
proof -
  let ?L = "x # map (\<lambda>y. CHR '' '' # y) xs"
  have m: "map trim ?L = map trim (x # xs)"
    by (simp add: trim_space)
  have "last ?L \<in> set ?L" by (rule last_in_set) simp
  then have "trim (last ?L) \<in> trim ` set ?L" by (rule imageI)
  then have "trim (last ?L) \<in> set (map trim ?L)" by (simp only: set_map)
  then have "trim (last ?L) \<in> trim ` set (x # xs)" by (simp only: m set_map)
  then obtain p where "p \<in> set (x # xs)" "trim (last ?L) = trim p" by blast
  with ne[of p] have l: "trim (last ?L) \<noteq> []" by metis
  have "map trim (butlast ?L) @ [trim (last ?L)] = map trim (butlast ?L @ [last ?L])" by simp
  also have "\<dots> = map trim ?L" by (subst append_butlast_last_id) simp_all
  finally have b: "map trim (butlast ?L) @ [trim (last ?L)] = map trim (x # xs)" using m by simp
  have "splitLoop (join '', '' (x # xs)) [] False [] = ([] @ map trim (butlast (([] @ x) # map (\<lambda>y. CHR '' '' # y) xs)),
              last (([] @ x) # map (\<lambda>y. CHR '' '' # y) xs))"
    by (rule splitLoop_join) (rule cl)
  then have sl: "splitLoop (join '', '' (x # xs)) [] False [] = (map trim (butlast ?L), last ?L)"
    by (simp only: append_Nil)
  from l have l': "(trim (last ?L) \<noteq> []) = True" by simp
  show ?thesis
    by (simp only: splitAuthParams_def sl prod.case l' if_True b)
qed

lemma dropWhile_stop: "\<not> P y \<Longrightarrow> dropWhile P (xs @ y # ys) = dropWhile P xs @ y # ys"
  by (induction xs) auto

lemma trim_keyed:
  assumes "k \<noteq> []" "\<not> isWhite (hd k)"
  shows "trim (k @ CHR ''='' # r) = k @ CHR ''='' # rev (dropWhile isWhite (rev r))"
proof -
  from assms obtain c cs where k: "k = c # cs" "\<not> isWhite c" by (cases k) auto
  have e: "\<not> isWhite CHR ''=''" by (simp add: isWhite_def)
  from k have "dropWhile isWhite (k @ CHR ''='' # r) = k @ CHR ''='' # r" by simp
  then have "trim (k @ CHR ''='' # r) = rev (dropWhile isWhite (rev r @ CHR ''='' # rev k))"
    by (simp add: trim_def)
  also have "\<dots> = rev (dropWhile isWhite (rev r) @ CHR ''='' # rev k)"
    by (simp only: dropWhile_stop[where P=isWhite, OF e])
  finally show ?thesis by simp
qed

lemma partKey_keyed:
  assumes "k \<noteq> []" "\<not> isWhite (hd k)" "CHR ''='' \<notin> set k"
  shows "partKey (trim (k @ CHR ''='' # r)) = Some (trim k)" and "trim (k @ CHR ''='' # r) \<noteq> []"
proof -
  have t: "takeWhile (\<lambda>c. c \<noteq> CHR ''='') (k @ CHR ''='' # r') = k" for r'
    using assms(3) by (auto simp: takeWhile_tail takeWhile_eq_all_conv)
  show "partKey (trim (k @ CHR ''='' # r)) = Some (trim k)"
    using assms(1) by (simp only: trim_keyed[OF assms(1,2)] partKey_def t Let_def) simp
  show "trim (k @ CHR ''='' # r) \<noteq> []"
    by (simp only: trim_keyed[OF assms(1,2)]) simp
qed

lemma trim_splitOn_no_delim: "x \<in> set (splitOn d s) \<Longrightarrow> d \<notin> set x"
  by (induction s arbitrary: x) (auto split: list.splits if_splits)

lemma set_trim: "set (trim s) \<subseteq> set s"
proof
  fix x assume "x \<in> set (trim s)"
  then have "x \<in> set (dropWhile isWhite (rev (dropWhile isWhite s)))" by (simp add: trim_def)
  then have "x \<in> set (rev (dropWhile isWhite s))" by (rule set_dropWhileD)
  then have "x \<in> set (dropWhile isWhite s)" by simp
  then show "x \<in> set s" by (rule set_dropWhileD)
qed

lemma pickQop_no_comma: "pickQop x = Some q \<Longrightarrow> CHR '','' \<notin> set q"
proof -
  assume a: "pickQop x = Some q"
  then obtain s where s: "x = Some s" by (cases x) (auto simp: pickQop_def)
  have f: "\<And>y. y \<in> set (filter (\<lambda>s. s \<noteq> []) (map trim (splitOn CHR '','' s))) \<Longrightarrow> CHR '','' \<notin> set y"
    using trim_splitOn_no_delim set_trim by fastforce
  show ?thesis
  proof (cases "q = ''auth''")
    case True then show ?thesis by simp
  next
    case False
    with a s obtain ps where "filter (\<lambda>s. s \<noteq> []) (map trim (splitOn CHR '','' s)) = q # ps"
      by (auto simp: pickQop_def Let_def split: if_splits list.splits)
    with f[of q] show ?thesis by simp
  qed
qed


lemma digestParts_disj:
  assumes "part \<in> set (digestParts rt cnonce p)"
  shows "part = quoted ''username'' (username p)
    \<or> part = quoted ''realm'' (orElse (challenge p ''realm'') [])
    \<or> part = quoted ''nonce'' (orElse (challenge p ''nonce'') [])
    \<or> part = quoted ''uri'' (uri p)
    \<or> part = quoted ''response'' (digestResponse rt cnonce p)
    \<or> part = quoted ''opaque'' (orElse (challenge p ''opaque'') [])
    \<or> part = quoted ''charset'' (orElse (challenge p ''charset'') [])
    \<or> part = ''algorithm='' @ orElse (challenge p ''algorithm'') []
    \<or> part = ''qop='' @ orElse (pickQop (challenge p ''qop'')) []
    \<or> part = ''nc='' @ ncStr (nc p)
    \<or> part = quoted ''cnonce'' cnonce"
proof -
  have o: "x \<in> set (optPart v f) \<Longrightarrow> x = f (orElse v [])" for x v f
    by (cases v) (auto simp: optPart_def orElse_def split: if_splits)
  have s: "orElse (Some a) d = a" for a d by (simp add: orElse_def)
  from assms show ?thesis
    by (cases "pickQop (challenge p ''qop'')") (auto simp: digestParts_def s dest!: o)
qed

lemma digestParts_cases:
  assumes "part \<in> set (digestParts rt cnonce p)"
  obtains (username) "part = quoted ''username'' (username p)"
    | (realm) "part = quoted ''realm'' (orElse (challenge p ''realm'') [])"
    | (nonce) "part = quoted ''nonce'' (orElse (challenge p ''nonce'') [])"
    | (uri) "part = quoted ''uri'' (uri p)"
    | (response) "part = quoted ''response'' (digestResponse rt cnonce p)"
    | (opaque) "part = quoted ''opaque'' (orElse (challenge p ''opaque'') [])"
    | (charset) "part = quoted ''charset'' (orElse (challenge p ''charset'') [])"
    | (algorithm) "part = ''algorithm='' @ orElse (challenge p ''algorithm'') []"
    | (qop) "part = ''qop='' @ orElse (pickQop (challenge p ''qop'')) []"
    | (nc) "part = ''nc='' @ ncStr (nc p)"
    | (cnonce) "part = quoted ''cnonce'' cnonce"
  using digestParts_disj[OF assms] by blast

lemma digestParts_shape:
  assumes pl: "plainParams rt cnonce p" and "part \<in> set (digestParts rt cnonce p)"
  shows "(\<exists>k v. part = quoted k v \<and> CHR 0x22 \<notin> set k \<and> CHR '','' \<notin> set k \<and> CHR 0x22 \<notin> set v)
         \<or> (CHR 0x22 \<notin> set part \<and> CHR '','' \<notin> set part)"
  using assms(2)
proof (cases rule: digestParts_cases)
  case username
  moreover have "CHR 0x22 \<notin> set ''username''" "CHR '','' \<notin> set ''username''" by simp_all
  moreover from pl have "CHR 0x22 \<notin> set (username p)" by (simp add: plainParams_def)
  ultimately show ?thesis by blast
next
  case realm
  moreover have "CHR 0x22 \<notin> set ''realm''" "CHR '','' \<notin> set ''realm''" by simp_all
  moreover from pl have "CHR 0x22 \<notin> set (orElse (challenge p ''realm'') [])"
    by (simp add: plainParams_def)
  ultimately show ?thesis by blast
next
  case nonce
  moreover have "CHR 0x22 \<notin> set ''nonce''" "CHR '','' \<notin> set ''nonce''" by simp_all
  moreover from pl have "CHR 0x22 \<notin> set (orElse (challenge p ''nonce'') [])"
    by (simp add: plainParams_def)
  ultimately show ?thesis by blast
next
  case uri
  moreover have "CHR 0x22 \<notin> set ''uri''" "CHR '','' \<notin> set ''uri''" by simp_all
  moreover from pl have "CHR 0x22 \<notin> set (uri p)" by (simp add: plainParams_def)
  ultimately show ?thesis by blast
next
  case response
  moreover have "CHR 0x22 \<notin> set ''response''" "CHR '','' \<notin> set ''response''" by simp_all
  moreover from pl have "CHR 0x22 \<notin> set (digestResponse rt cnonce p)"
    by (simp add: plainParams_def)
  ultimately show ?thesis by blast
next
  case opaque
  moreover have "CHR 0x22 \<notin> set ''opaque''" "CHR '','' \<notin> set ''opaque''" by simp_all
  moreover from pl have "CHR 0x22 \<notin> set (orElse (challenge p ''opaque'') [])"
    by (simp add: plainParams_def)
  ultimately show ?thesis by blast
next
  case charset
  moreover have "CHR 0x22 \<notin> set ''charset''" "CHR '','' \<notin> set ''charset''" by simp_all
  moreover from pl have "CHR 0x22 \<notin> set (orElse (challenge p ''charset'') [])"
    by (simp add: plainParams_def)
  ultimately show ?thesis by blast
next
  case algorithm
  from pl have "CHR 0x22 \<notin> set (orElse (challenge p ''algorithm'') [])"
    "CHR '','' \<notin> set (orElse (challenge p ''algorithm'') [])"
    by (simp_all add: plainParams_def)
  with algorithm show ?thesis by simp
next
  case qop
  from pl have "CHR 0x22 \<notin> set (orElse (pickQop (challenge p ''qop'')) [])"
    by (simp add: plainParams_def)
  moreover have "CHR '','' \<notin> set (orElse (pickQop (challenge p ''qop'')) [])"
    using pickQop_no_comma[of "challenge p ''qop''"]
    by (cases "pickQop (challenge p ''qop'')") (simp_all add: orElse_def)
  ultimately show ?thesis using qop by simp
next
  case nc
  have "CHR 0x22 \<notin> set (ncStr (nc p))" "CHR '','' \<notin> set (ncStr (nc p))"
    using ncStr_props[of "nc p"] by auto
  with nc show ?thesis by simp
next
  case cnonce
  moreover have "CHR 0x22 \<notin> set ''cnonce''" "CHR '','' \<notin> set ''cnonce''" by simp_all
  moreover from pl have "CHR 0x22 \<notin> set cnonce" by (simp add: plainParams_def)
  ultimately show ?thesis by blast
qed

lemma digestParts_closed:
  assumes "plainParams rt cnonce p" "part \<in> set (digestParts rt cnonce p)"
  shows "splitLoop (part @ rest) cur False out = splitLoop rest (cur @ part) False out"
  using digestParts_shape[OF assms]
  by (auto simp: splitLoop_quoted splitLoop_plain)


lemma map_filter_append: "List.map_filter f (xs @ ys) = List.map_filter f xs @ List.map_filter f ys"
  by (simp add: List.map_filter_def)

lemma quoted_keyed: "quoted k v = k @ CHR ''='' # (CHR 0x22 # v @ [CHR 0x22])"
  by (simp add: quoted_def)

lemma digestParts_keyed:
  assumes "part \<in> set (digestParts rt cnonce p)"
  shows "\<exists>k r. part = k @ CHR ''='' # r \<and> k \<noteq> [] \<and> \<not> isWhite (hd k) \<and> CHR ''='' \<notin> set k"
proof -
  have i: "\<exists>k' r. quoted k v = k' @ CHR ''='' # r \<and> k' \<noteq> [] \<and> \<not> isWhite (hd k') \<and> CHR ''='' \<notin> set k'"
    if "k \<noteq> []" "\<not> isWhite (hd k)" "CHR ''='' \<notin> set k" for k v
    using that quoted_keyed by blast
  have j: "\<exists>k' r. k @ CHR ''='' # v = k' @ CHR ''='' # r \<and> k' \<noteq> [] \<and> \<not> isWhite (hd k') \<and> CHR ''='' \<notin> set k'"
    if "k \<noteq> []" "\<not> isWhite (hd k)" "CHR ''='' \<notin> set k" for k v
    using that by blast
  have a: "\<exists>k' r. ''algorithm='' @ v = k' @ CHR ''='' # r \<and> k' \<noteq> [] \<and> \<not> isWhite (hd k') \<and> CHR ''='' \<notin> set k'" for v
    using j[of "''algorithm''" v] by (simp add: isWhite_def)
  have b: "\<exists>k' r. ''qop='' @ v = k' @ CHR ''='' # r \<and> k' \<noteq> [] \<and> \<not> isWhite (hd k') \<and> CHR ''='' \<notin> set k'" for v
    using j[of "''qop''" v] by (simp add: isWhite_def)
  have c: "\<exists>k' r. ''nc='' @ v = k' @ CHR ''='' # r \<and> k' \<noteq> [] \<and> \<not> isWhite (hd k') \<and> CHR ''='' \<notin> set k'" for v
    using j[of "''nc''" v] by (simp add: isWhite_def)
  have w: "\<not> isWhite (hd ''username'')" "\<not> isWhite (hd ''realm'')" "\<not> isWhite (hd ''nonce'')"
    "\<not> isWhite (hd ''uri'')" "\<not> isWhite (hd ''response'')" "\<not> isWhite (hd ''opaque'')"
    "\<not> isWhite (hd ''charset'')" "\<not> isWhite (hd ''cnonce'')"
    by (simp_all add: isWhite_def)
  from assms show ?thesis
  proof (cases rule: digestParts_cases)
    case username then show ?thesis using i[of "''username''"] w by simp
  next
    case realm then show ?thesis using i[of "''realm''"] w by simp
  next
    case nonce then show ?thesis using i[of "''nonce''"] w by simp
  next
    case uri then show ?thesis using i[of "''uri''"] w by simp
  next
    case response then show ?thesis using i[of "''response''"] w by simp
  next
    case opaque then show ?thesis using i[of "''opaque''"] w by simp
  next
    case charset then show ?thesis using i[of "''charset''"] w by simp
  next
    case algorithm then show ?thesis using a by simp
  next
    case qop then show ?thesis using b by simp
  next
    case nc then show ?thesis using c by simp
  next
    case cnonce then show ?thesis using i[of "''cnonce''"] w by simp
  qed
qed

lemma digestParts_trim_nonempty:
  assumes "part \<in> set (digestParts rt cnonce p)"
  shows "trim part \<noteq> []"
  using digestParts_keyed[OF assms] partKey_keyed(2) by blast

lemma digestParts_nonempty: "\<exists>x xs. digestParts rt cnonce p = x # xs"
  by (simp add: digestParts_def)

lemma authParams_digest:
  assumes "plainParams rt cnonce p"
  shows "splitAuthParams (drop (length ''Digest '') (buildDigestAuthorization rt cnonce p))
           = map trim (digestParts rt cnonce p)"
proof -
  obtain x xs where e: "digestParts rt cnonce p = x # xs"
    using digestParts_nonempty by blast
  have "splitAuthParams (join '', '' (x # xs)) = map trim (x # xs)"
  proof (rule splitAuthParams_join)
    fix part cur rest out assume "part \<in> set (x # xs)"
    then have "part \<in> set (digestParts rt cnonce p)" by (simp only: e)
    from digestParts_closed[OF assms this]
    show "splitLoop (part @ rest) cur False out = splitLoop rest (cur @ part) False out" .
  next
    fix part assume "part \<in> set (x # xs)"
    then have "part \<in> set (digestParts rt cnonce p)" by (simp only: e)
    then show "trim part \<noteq> []" by (rule digestParts_trim_nonempty)
  qed
  then show ?thesis
    by (simp add: buildDigestAuthorization_def e)
qed


lemma trim_names:
  "trim ''username'' = ''username''" "trim ''realm'' = ''realm''" "trim ''nonce'' = ''nonce''"
  "trim ''uri'' = ''uri''" "trim ''response'' = ''response''" "trim ''opaque'' = ''opaque''"
  "trim ''charset'' = ''charset''" "trim ''algorithm'' = ''algorithm''" "trim ''qop'' = ''qop''"
  "trim ''nc'' = ''nc''" "trim ''cnonce'' = ''cnonce''"
  by (simp_all add: trim_def isWhite_def)

lemma partKey_quoted:
  assumes "k \<noteq> []" "\<not> isWhite (hd k)" "CHR ''='' \<notin> set k" "trim k = k"
  shows "partKey (trim (quoted k v)) = Some k"
  using partKey_keyed(1)[OF assms(1,2,3)] assms(4) by (simp only: quoted_keyed)

lemma partKey_names:
  "partKey (trim (quoted ''username'' v)) = Some ''username''"
  "partKey (trim (quoted ''realm'' v)) = Some ''realm''"
  "partKey (trim (quoted ''nonce'' v)) = Some ''nonce''"
  "partKey (trim (quoted ''uri'' v)) = Some ''uri''"
  "partKey (trim (quoted ''response'' v)) = Some ''response''"
  "partKey (trim (quoted ''opaque'' v)) = Some ''opaque''"
  "partKey (trim (quoted ''charset'' v)) = Some ''charset''"
  "partKey (trim (quoted ''cnonce'' v)) = Some ''cnonce''"
  by (rule partKey_quoted; simp add: isWhite_def trim_names)+

lemma partKey_plain_names:
  "partKey (trim (''algorithm='' @ v)) = Some ''algorithm''"
  "partKey (trim (''qop='' @ v)) = Some ''qop''"
  "partKey (trim (''nc='' @ v)) = Some ''nc''"
  using partKey_keyed(1)[of "''algorithm''" v] partKey_keyed(1)[of "''qop''" v]
        partKey_keyed(1)[of "''nc''" v]
  by (simp_all add: isWhite_def trim_names)

lemma headerFields_digest:
  assumes "plainParams rt cnonce p"
  shows "headerFields (buildDigestAuthorization rt cnonce p)
           = [''username'', ''realm'', ''nonce'', ''uri'', ''response'']
             @ optPart (challenge p ''opaque'') (\<lambda>v. ''opaque'')
             @ optPart (challenge p ''charset'') (\<lambda>v. ''charset'')
             @ optPart (challenge p ''algorithm'') (\<lambda>v. ''algorithm'')
             @ (case pickQop (challenge p ''qop'') of
                  Some q \<Rightarrow> [''qop'', ''nc'', ''cnonce''] | None \<Rightarrow> [])"
proof -
  have "headerFields (buildDigestAuthorization rt cnonce p)
          = List.map_filter partKey (map trim (digestParts rt cnonce p))"
    by (simp only: headerFields_def authParams_digest[OF assms])
  also have "\<dots> = [''username'', ''realm'', ''nonce'', ''uri'', ''response'']
             @ optPart (challenge p ''opaque'') (\<lambda>v. ''opaque'')
             @ optPart (challenge p ''charset'') (\<lambda>v. ''charset'')
             @ optPart (challenge p ''algorithm'') (\<lambda>v. ''algorithm'')
             @ (case pickQop (challenge p ''qop'') of
                  Some q \<Rightarrow> [''qop'', ''nc'', ''cnonce''] | None \<Rightarrow> [])"
    using partKey_plain_names
    by (simp add: digestParts_def optPart_def map_filter_append map_filter_simps partKey_names
        split: option.splits)
  finally show ?thesis .
qed


lemma join_append:
  "xs \<noteq> [] \<Longrightarrow> ys \<noteq> [] \<Longrightarrow> join sep (xs @ ys) = join sep xs @ sep @ join sep ys"
proof (induction xs)
  case Nil then show ?case by simp
next
  case (Cons x xs)
  show ?case
  proof (cases xs)
    case Nil
    with Cons.prems show ?thesis by (cases ys) simp_all
  next
    case (Cons x' xs')
    with Cons.IH Cons.prems show ?thesis by simp
  qed
qed

lemma endsWith_append: "endsWith (a @ b) b"
  by (simp add: endsWith_def)

lemma header_tail:
  assumes "pickQop (challenge p ''qop'') = Some q"
  shows "endsWith (buildDigestAuthorization rt cnonce p)
           ('', '' @ join '', '' [''qop='' @ q, ''nc='' @ ncStr (nc p), quoted ''cnonce'' cnonce])"
proof -
  let ?t = "[''qop='' @ q, ''nc='' @ ncStr (nc p), quoted ''cnonce'' cnonce]"
  obtain xs where x: "digestParts rt cnonce p = xs @ ?t" "xs \<noteq> []"
    using assms by (simp add: digestParts_def)
  have "buildDigestAuthorization rt cnonce p = (''Digest '' @ join '', '' xs) @ ('', '' @ join '', '' ?t)"
    using join_append[OF x(2), of ?t "'', ''"] by (simp only: buildDigestAuthorization_def x(1)) simp
  then show ?thesis by (simp only: endsWith_append)
qed

lemma parse_hdr_inject: "parseDigestChallenge hdr_inject = Inr ch_inject"
proof -
  let ?ps = "[quoted ''realm'' ''pts'', quoted ''nonce'' ''abc'',
       quoted ''algorithm'' ''MD5, qop=auth, nc=00000001, cnonce=x'']"
  have m: "matchDigestPrefix hdr_inject = Some (join '', '' ?ps)"
    by (simp add: hdr_inject_def matchDigestPrefix_def quoted_def isWhite_def isLineTerminator_def str_simps)
  have s: "splitAuthParams (join '', '' ?ps) = ?ps"
    by (simp add: splitAuthParams_def quoted_def trim_def isWhite_def)
  have "foldl addParam Map.empty ?ps = ch_inject"
    by (simp add: addParam_def quoted_def unquote_def startsWith_def endsWith_def trim_def
        isWhite_def ch_inject_def)
  then show ?thesis
    by (simp only: parseDigestChallenge_def m s option.case)
qed

lemma inject_parts:
  "digestParts rt_stub ''c0ffee'' dp_inject
     = [quoted ''username'' ''admin'', quoted ''realm'' ''pts'', quoted ''nonce'' ''abc'',
        quoted ''uri'' ''/jsonPTS'',
        quoted ''response'' ''md5:md5:admin:pts:secret:abc:md5:POST:/jsonPTS'',
        ''algorithm=MD5, qop=auth, nc=00000001, cnonce=x'']"
  by (simp add: dp_inject_def ch_inject_def digestParts_def digestResponse_def digestHA1_def digestHA2_def
        digestAlgorithm_def hash_def pickQop_def optPart_def orElse_def endsWith_def rt_stub_def
        str_simps)

lemma inject_fields:
  "headerFields (buildDigestAuthorization rt_stub ''c0ffee'' dp_inject)
     = [''username'', ''realm'', ''nonce'', ''uri'', ''response'', ''algorithm'', ''qop'', ''nc'', ''cnonce'']"
  by (simp add: buildDigestAuthorization_def inject_parts headerFields_def splitAuthParams_def
      quoted_def trim_def isWhite_def partKey_def map_filter_simps)

lemma inject_ends:
  "endsWith (buildDigestAuthorization rt_stub ''c0ffee'' dp_inject)
     '', algorithm=MD5, qop=auth, nc=00000001, cnonce=x''"
  by (simp add: buildDigestAuthorization_def inject_parts endsWith_def quoted_def)

lemma plain_auth: "plainParams rt_stub ''c0ffee'' dp_auth"
  by (simp add: plainParams_def dp_auth_def ch_digest_def digestResponse_def digestHA1_def digestHA2_def
        digestAlgorithm_def hash_def pickQop_def orElse_def endsWith_def rt_stub_def
        str_simps trim_def isWhite_def ncStr_def padStart_def toHex.simps hexChar_def
        replicate_numeral)

lemma plain_legacy: "plainParams rt_stub ''c0ffee'' dp_legacy"
  by (simp add: plainParams_def dp_legacy_def digestResponse_def digestHA1_def digestHA2_def
        digestAlgorithm_def hash_def pickQop_def orElse_def endsWith_def rt_stub_def
        str_simps trim_def isWhite_def)


text \<open>
  C4, amended: for every challenge and nonce count: when a qop is selected, the response
  digest is the hash of \<open>HA1:nonce:nc:cnonce:qop:HA2\<close>, where \<open>nc\<close> is the nonce count in
  lowercase hexadecimal, padded with zeros to at least 8 digits (exactly 8 below \<open>2^32\<close>),
  the parts \<open>qop\<close>, \<open>nc\<close> and \<open>cnonce\<close> are pushed and the emitted header ends with
  them; when no qop is selected, as when the challenge has none, the digest is the hash of
  \<open>HA1:nonce:HA2\<close> and no part pushed is a \<open>qop\<close>, \<open>nc\<close> or \<open>cnonce\<close> part. When
  the values written into the header are plain (no double quote in any of them, no comma in
  the algorithm of the challenge), the emitted header, cut at its commas outside quotes, is
  the list of the parts, and its field names are \<open>username\<close>, \<open>realm\<close>, \<open>nonce\<close>,
  \<open>uri\<close>, \<open>response\<close>, then \<open>opaque\<close>, \<open>charset\<close> and \<open>algorithm\<close> for those of
  the challenge that are not empty, then \<open>qop\<close>, \<open>nc\<close>, \<open>cnonce\<close> exactly when a qop
  is selected: the header has the three fields when a qop is selected, and none of them
  when none is.
\<close>

theorem digest_response_and_fields:
  "(\<forall>q. pickQop (challenge p ''qop'') = Some q \<longrightarrow>
       digestResponse rt cnonce p
         = hash rt (digestAlgorithm p)
             (digestHA1 rt cnonce p @ '':'' @ orElse (challenge p ''nonce'') [] @ '':''
              @ ncStr (nc p) @ '':'' @ cnonce @ '':'' @ q @ '':'' @ digestHA2 rt p)
       \<and> ''qop='' @ q \<in> set (digestParts rt cnonce p)
       \<and> ''nc='' @ ncStr (nc p) \<in> set (digestParts rt cnonce p)
       \<and> quoted ''cnonce'' cnonce \<in> set (digestParts rt cnonce p)
       \<and> endsWith (buildDigestAuthorization rt cnonce p)
            ('', '' @ join '', '' [''qop='' @ q, ''nc='' @ ncStr (nc p), quoted ''cnonce'' cnonce]))
   \<and> (pickQop (challenge p ''qop'') = None \<longrightarrow>
       digestResponse rt cnonce p
         = hash rt (digestAlgorithm p)
             (digestHA1 rt cnonce p @ '':'' @ orElse (challenge p ''nonce'') [] @ '':''
              @ digestHA2 rt p)
       \<and> (\<forall>part\<in>set (digestParts rt cnonce p).
             \<not> startsWith part ''qop='' \<and> \<not> startsWith part ''nc=''
             \<and> \<not> startsWith part ''cnonce=''))
   \<and> (challenge p ''qop'' = None \<longrightarrow> pickQop (challenge p ''qop'') = None)
   \<and> quoted ''response'' (digestResponse rt cnonce p) \<in> set (digestParts rt cnonce p)
   \<and> buildDigestAuthorization rt cnonce p = ''Digest '' @ join '', '' (digestParts rt cnonce p)
   \<and> 8 \<le> length (ncStr (nc p))
   \<and> (nc p < 2 ^ 32 \<longrightarrow> length (ncStr (nc p)) = 8)
   \<and> set (ncStr (nc p)) \<subseteq> set ''0123456789abcdef''
   \<and> fromHex (ncStr (nc p)) = nc p
   \<and> (plainParams rt cnonce p \<longrightarrow>
       splitAuthParams (drop (length ''Digest '') (buildDigestAuthorization rt cnonce p))
         = map trim (digestParts rt cnonce p)
       \<and> headerFields (buildDigestAuthorization rt cnonce p)
           = [''username'', ''realm'', ''nonce'', ''uri'', ''response'']
             @ optPart (challenge p ''opaque'') (\<lambda>v. ''opaque'')
             @ optPart (challenge p ''charset'') (\<lambda>v. ''charset'')
             @ optPart (challenge p ''algorithm'') (\<lambda>v. ''algorithm'')
             @ (case pickQop (challenge p ''qop'') of
                  Some q \<Rightarrow> [''qop'', ''nc'', ''cnonce''] | None \<Rightarrow> [])
       \<and> (\<forall>q. pickQop (challenge p ''qop'') = Some q \<longrightarrow>
             ''qop'' \<in> set (headerFields (buildDigestAuthorization rt cnonce p))
             \<and> ''nc'' \<in> set (headerFields (buildDigestAuthorization rt cnonce p))
             \<and> ''cnonce'' \<in> set (headerFields (buildDigestAuthorization rt cnonce p)))
       \<and> (pickQop (challenge p ''qop'') = None \<longrightarrow>
             ''qop'' \<notin> set (headerFields (buildDigestAuthorization rt cnonce p))
             \<and> ''nc'' \<notin> set (headerFields (buildDigestAuthorization rt cnonce p))
             \<and> ''cnonce'' \<notin> set (headerFields (buildDigestAuthorization rt cnonce p))))"
proof -
  have a: "\<forall>q. pickQop (challenge p ''qop'') = Some q \<longrightarrow>
       digestResponse rt cnonce p
         = hash rt (digestAlgorithm p)
             (digestHA1 rt cnonce p @ '':'' @ orElse (challenge p ''nonce'') [] @ '':''
              @ ncStr (nc p) @ '':'' @ cnonce @ '':'' @ q @ '':'' @ digestHA2 rt p)
       \<and> ''qop='' @ q \<in> set (digestParts rt cnonce p)
       \<and> ''nc='' @ ncStr (nc p) \<in> set (digestParts rt cnonce p)
       \<and> quoted ''cnonce'' cnonce \<in> set (digestParts rt cnonce p)
       \<and> endsWith (buildDigestAuthorization rt cnonce p)
            ('', '' @ join '', '' [''qop='' @ q, ''nc='' @ ncStr (nc p), quoted ''cnonce'' cnonce])"
    using header_tail[of p _ rt cnonce]
    by (simp add: digestResponse_def digestParts_def Let_def)
  have b: "pickQop (challenge p ''qop'') = None \<longrightarrow>
       digestResponse rt cnonce p
         = hash rt (digestAlgorithm p)
             (digestHA1 rt cnonce p @ '':'' @ orElse (challenge p ''nonce'') [] @ '':''
              @ digestHA2 rt p)
       \<and> (\<forall>part\<in>set (digestParts rt cnonce p).
             \<not> startsWith part ''qop='' \<and> \<not> startsWith part ''nc=''
             \<and> \<not> startsWith part ''cnonce='')"
    using parts_without_qop[of p _ rt cnonce]
    by (simp add: digestResponse_def Let_def)
  have c: "challenge p ''qop'' = None \<longrightarrow> pickQop (challenge p ''qop'') = None"
    by (simp add: pickQop_def)
  have d: "quoted ''response'' (digestResponse rt cnonce p) \<in> set (digestParts rt cnonce p)"
    by (simp add: digestParts_def)
  have e: "buildDigestAuthorization rt cnonce p = ''Digest '' @ join '', '' (digestParts rt cnonce p)"
    by (simp add: buildDigestAuthorization_def)
  have f: "(plainParams rt cnonce p \<longrightarrow>
       splitAuthParams (drop (length ''Digest '') (buildDigestAuthorization rt cnonce p))
         = map trim (digestParts rt cnonce p)
       \<and> headerFields (buildDigestAuthorization rt cnonce p)
           = [''username'', ''realm'', ''nonce'', ''uri'', ''response'']
             @ optPart (challenge p ''opaque'') (\<lambda>v. ''opaque'')
             @ optPart (challenge p ''charset'') (\<lambda>v. ''charset'')
             @ optPart (challenge p ''algorithm'') (\<lambda>v. ''algorithm'')
             @ (case pickQop (challenge p ''qop'') of
                  Some q \<Rightarrow> [''qop'', ''nc'', ''cnonce''] | None \<Rightarrow> [])
       \<and> (\<forall>q. pickQop (challenge p ''qop'') = Some q \<longrightarrow>
             ''qop'' \<in> set (headerFields (buildDigestAuthorization rt cnonce p))
             \<and> ''nc'' \<in> set (headerFields (buildDigestAuthorization rt cnonce p))
             \<and> ''cnonce'' \<in> set (headerFields (buildDigestAuthorization rt cnonce p)))
       \<and> (pickQop (challenge p ''qop'') = None \<longrightarrow>
             ''qop'' \<notin> set (headerFields (buildDigestAuthorization rt cnonce p))
             \<and> ''nc'' \<notin> set (headerFields (buildDigestAuthorization rt cnonce p))
             \<and> ''cnonce'' \<notin> set (headerFields (buildDigestAuthorization rt cnonce p))))"
  proof
    assume pl: "plainParams rt cnonce p"
    note h = headerFields_digest[OF pl]
    have x: "\<forall>q. pickQop (challenge p ''qop'') = Some q \<longrightarrow>
             ''qop'' \<in> set (headerFields (buildDigestAuthorization rt cnonce p))
             \<and> ''nc'' \<in> set (headerFields (buildDigestAuthorization rt cnonce p))
             \<and> ''cnonce'' \<in> set (headerFields (buildDigestAuthorization rt cnonce p))"
      by (simp add: h)
    have y: "pickQop (challenge p ''qop'') = None \<longrightarrow>
             ''qop'' \<notin> set (headerFields (buildDigestAuthorization rt cnonce p))
             \<and> ''nc'' \<notin> set (headerFields (buildDigestAuthorization rt cnonce p))
             \<and> ''cnonce'' \<notin> set (headerFields (buildDigestAuthorization rt cnonce p))"
      by (simp add: h optPart_def split: option.splits)
    from authParams_digest[OF pl] h x y
    show "splitAuthParams (drop (length ''Digest '') (buildDigestAuthorization rt cnonce p))
         = map trim (digestParts rt cnonce p)
       \<and> headerFields (buildDigestAuthorization rt cnonce p)
           = [''username'', ''realm'', ''nonce'', ''uri'', ''response'']
             @ optPart (challenge p ''opaque'') (\<lambda>v. ''opaque'')
             @ optPart (challenge p ''charset'') (\<lambda>v. ''charset'')
             @ optPart (challenge p ''algorithm'') (\<lambda>v. ''algorithm'')
             @ (case pickQop (challenge p ''qop'') of
                  Some q \<Rightarrow> [''qop'', ''nc'', ''cnonce''] | None \<Rightarrow> [])
       \<and> (\<forall>q. pickQop (challenge p ''qop'') = Some q \<longrightarrow>
             ''qop'' \<in> set (headerFields (buildDigestAuthorization rt cnonce p))
             \<and> ''nc'' \<in> set (headerFields (buildDigestAuthorization rt cnonce p))
             \<and> ''cnonce'' \<in> set (headerFields (buildDigestAuthorization rt cnonce p)))
       \<and> (pickQop (challenge p ''qop'') = None \<longrightarrow>
             ''qop'' \<notin> set (headerFields (buildDigestAuthorization rt cnonce p))
             \<and> ''nc'' \<notin> set (headerFields (buildDigestAuthorization rt cnonce p))
             \<and> ''cnonce'' \<notin> set (headerFields (buildDigestAuthorization rt cnonce p)))"
      by blast
  qed
  from a b c d e f ncStr_props[of "nc p"] show ?thesis by blast
qed

theorem digest_response_and_fields_witness:
  "pickQop (challenge dp_auth ''qop'') = Some ''auth'' \<and> nc dp_auth < 2 ^ 32
   \<and> ncStr (nc dp_auth) = ''00000001''
   \<and> ''nc=00000001'' \<in> set (digestParts rt_stub ''c0ffee'' dp_auth)
   \<and> plainParams rt_stub ''c0ffee'' dp_auth
   \<and> headerFields (buildDigestAuthorization rt_stub ''c0ffee'' dp_auth)
        = [''username'', ''realm'', ''nonce'', ''uri'', ''response'', ''qop'', ''nc'', ''cnonce'']
   \<and> endsWith (buildDigestAuthorization rt_stub ''c0ffee'' dp_auth)
        ('', qop=auth, nc=00000001, '' @ quoted ''cnonce'' ''c0ffee'')
   \<and> challenge dp_legacy ''qop'' = None \<and> pickQop (challenge dp_legacy ''qop'') = None
   \<and> digestParts rt_stub ''c0ffee'' dp_legacy
        = [quoted ''username'' ''admin'', quoted ''realm'' ''pts'', quoted ''nonce'' ''abc'',
           quoted ''uri'' ''/jsonPTS'',
           quoted ''response'' ''md5:md5:admin:pts:secret:abc:md5:POST:/jsonPTS'']
   \<and> plainParams rt_stub ''c0ffee'' dp_legacy
   \<and> headerFields (buildDigestAuthorization rt_stub ''c0ffee'' dp_legacy)
        = [''username'', ''realm'', ''nonce'', ''uri'', ''response'']"
proof -
  have q: "pickQop (challenge dp_auth ''qop'') = Some ''auth''"
    by (simp add: dp_auth_def ch_digest_def pickQop_def trim_def isWhite_def)
  have n: "nc dp_auth < 2 ^ 32" by (simp add: dp_auth_def)
  have s: "ncStr (nc dp_auth) = ''00000001''"
    by (simp add: dp_auth_def ncStr_def padStart_def toHex.simps hexChar_def replicate_numeral)
  have l: "challenge dp_legacy ''qop'' = None" by (simp add: dp_legacy_def)
  have p: "digestParts rt_stub ''c0ffee'' dp_legacy
        = [quoted ''username'' ''admin'', quoted ''realm'' ''pts'', quoted ''nonce'' ''abc'',
           quoted ''uri'' ''/jsonPTS'',
           quoted ''response'' ''md5:md5:admin:pts:secret:abc:md5:POST:/jsonPTS'']"
    by (simp add: dp_legacy_def digestParts_def digestResponse_def digestHA1_def digestHA2_def
        digestAlgorithm_def hash_def pickQop_def optPart_def orElse_def endsWith_def rt_stub_def
        str_simps)
  have oa: "challenge dp_auth ''opaque'' = None" "challenge dp_auth ''charset'' = None"
    "challenge dp_auth ''algorithm'' = None"
    by (simp_all add: dp_auth_def ch_digest_def)
  have ol: "challenge dp_legacy ''opaque'' = None" "challenge dp_legacy ''charset'' = None"
    "challenge dp_legacy ''algorithm'' = None"
    by (simp_all add: dp_legacy_def)
  note ta = digest_response_and_fields [of dp_auth rt_stub "''c0ffee''"]
  note tl = digest_response_and_fields [of dp_legacy rt_stub "''c0ffee''"]
  from ta q have "''nc='' @ ncStr (nc dp_auth) \<in> set (digestParts rt_stub ''c0ffee'' dp_auth)"
    by blast
  then have w1: "''nc=00000001'' \<in> set (digestParts rt_stub ''c0ffee'' dp_auth)"
    by (simp add: s)
  from ta plain_auth
  have "headerFields (buildDigestAuthorization rt_stub ''c0ffee'' dp_auth)
           = [''username'', ''realm'', ''nonce'', ''uri'', ''response'']
             @ optPart (challenge dp_auth ''opaque'') (\<lambda>v. ''opaque'')
             @ optPart (challenge dp_auth ''charset'') (\<lambda>v. ''charset'')
             @ optPart (challenge dp_auth ''algorithm'') (\<lambda>v. ''algorithm'')
             @ (case pickQop (challenge dp_auth ''qop'') of
                  Some q \<Rightarrow> [''qop'', ''nc'', ''cnonce''] | None \<Rightarrow> [])"
    by blast
  then have w2: "headerFields (buildDigestAuthorization rt_stub ''c0ffee'' dp_auth)
        = [''username'', ''realm'', ''nonce'', ''uri'', ''response'', ''qop'', ''nc'', ''cnonce'']"
    by (simp add: q oa optPart_def)
  from ta q
  have "endsWith (buildDigestAuthorization rt_stub ''c0ffee'' dp_auth)
            ('', '' @ join '', '' [''qop='' @ ''auth'', ''nc='' @ ncStr (nc dp_auth),
                                   quoted ''cnonce'' ''c0ffee''])"
    by blast
  then have w3: "endsWith (buildDigestAuthorization rt_stub ''c0ffee'' dp_auth)
        ('', qop=auth, nc=00000001, '' @ quoted ''cnonce'' ''c0ffee'')"
    by (simp add: s)
  from tl l have w4: "pickQop (challenge dp_legacy ''qop'') = None" by blast
  from tl plain_legacy
  have "headerFields (buildDigestAuthorization rt_stub ''c0ffee'' dp_legacy)
           = [''username'', ''realm'', ''nonce'', ''uri'', ''response'']
             @ optPart (challenge dp_legacy ''opaque'') (\<lambda>v. ''opaque'')
             @ optPart (challenge dp_legacy ''charset'') (\<lambda>v. ''charset'')
             @ optPart (challenge dp_legacy ''algorithm'') (\<lambda>v. ''algorithm'')
             @ (case pickQop (challenge dp_legacy ''qop'') of
                  Some q \<Rightarrow> [''qop'', ''nc'', ''cnonce''] | None \<Rightarrow> [])"
    by blast
  then have w5: "headerFields (buildDigestAuthorization rt_stub ''c0ffee'' dp_legacy)
        = [''username'', ''realm'', ''nonce'', ''uri'', ''response'']"
    by (simp add: w4 ol optPart_def)
  from q n s w1 plain_auth w2 w3 l w4 p plain_legacy w5 show ?thesis by blast
qed
text \<open>
  C4, as stated, fails twice. The nonce count \<open>2^32\<close> is written with nine hexadecimal
  digits (\<open>padStart\<close> pads, it does not cut). And a challenge without qop whose algorithm
  is the quoted text \<open>MD5, qop=auth, nc=00000001, cnonce=x\<close> selects no qop, while the
  emitted header, in which the algorithm is written without quotes, ends with that text and
  has the fields \<open>qop\<close>, \<open>nc\<close> and \<open>cnonce\<close>.
\<close>

theorem digest_fields_counterexample:
  "nc dp_wide = 4294967296 \<and> pickQop (challenge dp_wide ''qop'') = Some ''auth''
   \<and> ncStr (nc dp_wide) = ''100000000'' \<and> length (ncStr (nc dp_wide)) = 9
   \<and> ''nc=100000000'' \<in> set (digestParts rt_stub ''c0ffee'' dp_wide)
   \<and> parseDigestChallenge hdr_inject = Inr ch_inject
   \<and> challenge dp_inject = ch_inject
   \<and> challenge dp_inject ''qop'' = None \<and> pickQop (challenge dp_inject ''qop'') = None
   \<and> endsWith (buildDigestAuthorization rt_stub ''c0ffee'' dp_inject)
        '', algorithm=MD5, qop=auth, nc=00000001, cnonce=x''
   \<and> headerFields (buildDigestAuthorization rt_stub ''c0ffee'' dp_inject)
        = [''username'', ''realm'', ''nonce'', ''uri'', ''response'', ''algorithm'',
           ''qop'', ''nc'', ''cnonce'']"
proof -
  have w: "nc dp_wide = 4294967296 \<and> pickQop (challenge dp_wide ''qop'') = Some ''auth''
   \<and> ncStr (nc dp_wide) = ''100000000'' \<and> length (ncStr (nc dp_wide)) = 9
   \<and> ''nc=100000000'' \<in> set (digestParts rt_stub ''c0ffee'' dp_wide)"
    by (simp add: dp_wide_def ch_digest_def digestParts_def pickQop_def ncStr_def padStart_def
        toHex.simps hexChar_def trim_def isWhite_def)
  have i: "challenge dp_inject = ch_inject" "challenge dp_inject ''qop'' = None"
    "pickQop (challenge dp_inject ''qop'') = None"
    by (simp_all add: dp_inject_def ch_inject_def pickQop_def)
  from w i parse_hdr_inject inject_ends inject_fields show ?thesis by blast
qed


section \<open>Properties of the protocol client\<close>

lemma idMismatch_None:
  "idMismatch n ps = None \<longleftrightarrow> (\<forall>i<length ps. id_r (ps ! i) = of_nat (n + i))"
proof (induction ps arbitrary: n)
  case Nil
  then show ?case by simp
next
  case (Cons p ps)
  show ?case
  proof (cases "id_r p = of_nat n")
    case False
    then show ?thesis by auto
  next
    case True
    have "(\<forall>i<length (p # ps). id_r ((p # ps) ! i) = of_nat (n + i))
            \<longleftrightarrow> (\<forall>i<length ps. id_r (ps ! i) = of_nat (Suc n + i))"
      using True by (auto simp: nth_Cons split: nat.splits) 
    with True Cons.IH[of "Suc n"] show ?thesis by simp
  qed
qed

lemma idMismatch_Some:
  "idMismatch n ps = Some (j, g) \<Longrightarrow>
     \<exists>i<length ps. j = n + i \<and> g = id_r (ps ! i) \<and> g \<noteq> of_nat j
        \<and> (\<forall>k<i. id_r (ps ! k) = of_nat (n + k))"
proof (induction ps arbitrary: n)
  case Nil
  then show ?case by simp
next
  case (Cons p ps)
  show ?case
  proof (cases "id_r p = of_nat n")
    case False
    with Cons.prems have "j = n" "g = id_r p" by auto
    with False show ?thesis by (intro exI[of _ 0]) simp
  next
    case True
    with Cons.prems have "idMismatch (Suc n) ps = Some (j, g)" by simp
    from Cons.IH[OF this] obtain i where i: "i < length ps" "j = Suc n + i" "g = id_r (ps ! i)"
      "g \<noteq> of_nat j" "\<forall>k<i. id_r (ps ! k) = of_nat (Suc n + k)" by blast
    have "\<forall>k<Suc i. id_r ((p # ps) ! k) = of_nat (n + k)"
      using True i(5) by (auto simp: nth_Cons split: nat.splits)
    with i show ?thesis by (intro exI[of _ "Suc i"]) simp
  qed
qed

text \<open>
  C3: for every request list and every decoded response list, \<open>execute\<close> fails with the
  count mismatch, naming the number sent and the number got, when the counts differ; else
  with the id mismatch, naming the first position whose response has another id, and that
  id; else, if a response is flagged as an error, with the packet error that carries the
  first such response (positions and ids agree by then, so the first in id order); and only
  when no response is flagged does it return the responses, all of them.
\<close>

theorem execute_correlates:
  assumes post: "postWithAuth rt cfg srv cnonce st (buildEnvelope packets) = (Inr raw, st')"
      and parse: "parseRaw rt raw = Inr parsed"
  shows "(length parsed \<noteq> length packets \<longrightarrow>
            execute rt cfg srv cnonce st packets
              = (Inl (PacketCountMismatch (length packets) (length parsed)), st'))
       \<and> (length parsed = length packets \<and> (\<exists>i<length parsed. id_r (parsed ! i) \<noteq> of_nat i) \<longrightarrow>
            (\<exists>i<length parsed. id_r (parsed ! i) \<noteq> of_nat i
                \<and> (\<forall>k<i. id_r (parsed ! k) = of_nat k)
                \<and> execute rt cfg srv cnonce st packets
                     = (Inl (PacketIdMismatch i (id_r (parsed ! i))), st')))
       \<and> (length parsed = length packets \<and> (\<forall>i<length parsed. id_r (parsed ! i) = of_nat i)
            \<and> (\<exists>i<length parsed. error_r (parsed ! i)) \<longrightarrow>
            (\<exists>j<length parsed. error_r (parsed ! j) \<and> (\<forall>k<j. \<not> error_r (parsed ! k))
                \<and> execute rt cfg srv cnonce st packets
                     = (Inl (JsonPtsPacketError (parsed ! j)), st')))
       \<and> (length parsed = length packets \<and> (\<forall>i<length parsed. id_r (parsed ! i) = of_nat i)
            \<and> (\<forall>i<length parsed. \<not> error_r (parsed ! i)) \<longrightarrow>
            execute rt cfg srv cnonce st packets = (Inr parsed, st'))"
proof (intro conjI impI)
  assume "length parsed \<noteq> length packets"
  then show "execute rt cfg srv cnonce st packets
              = (Inl (PacketCountMismatch (length packets) (length parsed)), st')"
    by (simp add: execute_def post parse)
next
  assume a: "length parsed = length packets \<and> (\<exists>i<length parsed. id_r (parsed ! i) \<noteq> of_nat i)"
  then have "idMismatch 0 parsed \<noteq> None" by (auto simp: idMismatch_None)
  then obtain j g where m: "idMismatch 0 parsed = Some (j, g)" by auto
  from idMismatch_Some[OF m] have "j < length parsed" "g = id_r (parsed ! j)"
    "id_r (parsed ! j) \<noteq> of_nat j" "\<forall>k<j. id_r (parsed ! k) = of_nat k" by auto
  moreover have "execute rt cfg srv cnonce st packets = (Inl (PacketIdMismatch j g), st')"
    using a m by (simp add: execute_def post parse)
  ultimately show "\<exists>i<length parsed. id_r (parsed ! i) \<noteq> of_nat i
                \<and> (\<forall>k<i. id_r (parsed ! k) = of_nat k)
                \<and> execute rt cfg srv cnonce st packets
                     = (Inl (PacketIdMismatch i (id_r (parsed ! i))), st')"
    by blast
next
  assume a: "length parsed = length packets \<and> (\<forall>i<length parsed. id_r (parsed ! i) = of_nat i)
            \<and> (\<exists>i<length parsed. error_r (parsed ! i))"
  then have n: "idMismatch 0 parsed = None" by (simp add: idMismatch_None)
  from a obtain i where "i < length parsed" "error_r (parsed ! i)" by blast
  then have "\<exists>x\<in>set parsed. error_r x" using nth_mem by blast
  then have "find error_r parsed \<noteq> None" by (auto simp: find_None_iff)
  then obtain p where f: "find error_r parsed = Some p" by auto
  then obtain j where j: "j < length parsed" "error_r (parsed ! j)" "p = parsed ! j"
    "\<forall>k<j. \<not> error_r (parsed ! k)" by (auto simp: find_Some_iff)
  have "execute rt cfg srv cnonce st packets = (Inl (JsonPtsPacketError p), st')"
    using a n f by (simp add: execute_def post parse)
  with j show "\<exists>j<length parsed. error_r (parsed ! j) \<and> (\<forall>k<j. \<not> error_r (parsed ! k))
                \<and> execute rt cfg srv cnonce st packets
                     = (Inl (JsonPtsPacketError (parsed ! j)), st')"
    by blast
next
  assume a: "length parsed = length packets \<and> (\<forall>i<length parsed. id_r (parsed ! i) = of_nat i)
            \<and> (\<forall>i<length parsed. \<not> error_r (parsed ! i))"
  then have n: "idMismatch 0 parsed = None" by (simp add: idMismatch_None)
  from a have "find error_r parsed = None" by (auto simp: find_None_iff in_set_conv_nth)
  with a n show "execute rt cfg srv cnonce st packets = (Inr parsed, st')"
    by (simp add: execute_def post parse)
qed

lemma execute_Inr:
  assumes "execute rt cfg srv cnonce st packets = (Inr parsed, st')"
  shows "length parsed = length packets \<and> (\<forall>p\<in>set parsed. \<not> error_r p)"
  using assms
  by (auto simp: execute_def find_None_iff split: prod.splits sum.splits if_splits option.splits)


text \<open>
  C10: whenever \<open>setDateTime\<close> returns a value instead of throwing, the value is true:
  \<open>execute\<close> has already thrown the packet error for a response flagged as an error.
\<close>

theorem setDateTime_true:
  assumes "setDateTime rt cfg srv cnonce st params = (Inr b, st')"
  shows "b = True"
proof -
  let ?req = "[\<lparr> type_q = ''SetDateTime'', data_q = Some (setDateTimeData params) \<rparr>]"
  obtain r s where e: "execute rt cfg srv cnonce st ?req = (r, s)"
    by (cases "execute rt cfg srv cnonce st ?req")
  with assms obtain pkt rest where r: "r = Inr (pkt # rest)" "b = (\<not> error_r pkt)"
    by (auto simp: setDateTime_def split: sum.splits list.splits)
  from e r execute_Inr[of rt cfg srv cnonce st ?req "pkt # rest" s] have "\<not> error_r pkt"
    by simp
  with r show ?thesis by simp
qed






lemma no_flag_responseEnvelope: "\<not> hasUnauthorizedFlag (responseEnvelope ps)"
  by (simp add: responseEnvelope_def)

lemma hdr_digest_nonempty: "hdr_digest \<noteq> []"
  by (simp add: hdr_digest_def)


lemma post_srv_digest:
  "postWithAuth rt_stub cfg_admin srv_digest ''c0ffee'' st_fresh b
     = (Inr (Parsed (responseEnvelope [pkt_datetime])),
        \<lparr> digestNc = 1, sent = [unauthenticatedPost rt_stub cfg_admin b,
                                  digestRetry rt_stub cfg_admin ''c0ffee'' ch_digest 1 b] \<rparr>)"
proof -
  have a: "auth cfg_admin = Digest" by (simp add: cfg_admin_def cfg_default_def)
  have n: "hdr_digest \<noteq> []" by (rule hdr_digest_nonempty)
  have i: "includesStr ''application/json; charset=utf-8'' ''application/json''" by simp
  have h: "\<not> hasUnauthorizedFlag (responseEnvelope [pkt_datetime])"
    by (simp add: responseEnvelope_def)
  show ?thesis
    using n i h
    by (simp add: postWithAuth_def a postJson_def Let_def srv_digest_def st_fresh_def
        parse_hdr_digest unauthenticatedPost_def digestRetry_def retryParams_def)
qed


lemma post_srv_reply:
  assumes "\<not> hasUnauthorizedFlag j"
  shows "postWithAuth rt_stub cfg_admin (srv_reply j) ''c0ffee'' st_fresh b
           = (Inr (Parsed j), \<lparr> digestNc = 0, sent = [unauthenticatedPost rt_stub cfg_admin b] \<rparr>)"
proof -
  have a: "auth cfg_admin = Digest" by (simp add: cfg_admin_def cfg_default_def)
  have i: "includesStr ''application/json'' ''application/json''" by simp
  show ?thesis
    using assms i
    by (simp add: postWithAuth_def a postJson_def Let_def srv_reply_def st_fresh_def
        unauthenticatedPost_def)
qed

lemma parse_examples:
  "parseEnvelope rt_stub (responseEnvelope [pkt_a, pkt_c]) = Inr [resp_a, resp_c]"
  "parseEnvelope rt_stub (responseEnvelope [pkt_c]) = Inr [resp_c]"
  "parseEnvelope rt_stub (responseEnvelope [pkt_error]) = Inr [resp_error]"
  "parseEnvelope rt_stub (responseEnvelope [pkt_datetime]) = Inr [resp_datetime]"
  by (simp_all add: codec_simps pkt_a_def pkt_c_def pkt_error_def pkt_datetime_def resp_a_def
      resp_c_def resp_error_def resp_datetime_def str_simps)

theorem execute_correlates_witness:
  "execute rt_stub cfg_admin (srv_reply (responseEnvelope [pkt_a, pkt_c])) ''c0ffee'' st_fresh reqs_one
     = (Inl (PacketCountMismatch 1 2),
        \<lparr> digestNc = 0, sent = [unauthenticatedPost rt_stub cfg_admin (buildEnvelope reqs_one)] \<rparr>)
   \<and> execute rt_stub cfg_admin (srv_reply (responseEnvelope [pkt_c])) ''c0ffee'' st_fresh reqs_one
     = (Inl (PacketIdMismatch 0 1),
        \<lparr> digestNc = 0, sent = [unauthenticatedPost rt_stub cfg_admin (buildEnvelope reqs_one)] \<rparr>)
   \<and> execute rt_stub cfg_admin (srv_reply (responseEnvelope [pkt_error])) ''c0ffee'' st_fresh reqs_one
     = (Inl (JsonPtsPacketError resp_error),
        \<lparr> digestNc = 0, sent = [unauthenticatedPost rt_stub cfg_admin (buildEnvelope reqs_one)] \<rparr>)
   \<and> execute rt_stub cfg_admin srv_digest ''c0ffee'' st_fresh reqs_one
     = (Inr [resp_datetime],
        \<lparr> digestNc = 1,
          sent = [unauthenticatedPost rt_stub cfg_admin (buildEnvelope reqs_one),
                  digestRetry rt_stub cfg_admin ''c0ffee'' ch_digest 1 (buildEnvelope reqs_one)] \<rparr>)"
proof -
  let ?b = "buildEnvelope reqs_one"
  note p = post_srv_reply [OF no_flag_responseEnvelope, of _ ?b]
  have l: "length reqs_one = 1" by (simp add: reqs_one_def)
  have c1: "execute rt_stub cfg_admin (srv_reply (responseEnvelope [pkt_a, pkt_c])) ''c0ffee'' st_fresh reqs_one
     = (Inl (PacketCountMismatch 1 2),
        \<lparr> digestNc = 0, sent = [unauthenticatedPost rt_stub cfg_admin ?b] \<rparr>)"
    using execute_correlates [OF p [of "[pkt_a, pkt_c]"], of "[resp_a, resp_c]"] l
    by (simp add: parseRaw_def parse_examples)
  have c2: "execute rt_stub cfg_admin (srv_reply (responseEnvelope [pkt_c])) ''c0ffee'' st_fresh reqs_one
     = (Inl (PacketIdMismatch 0 1),
        \<lparr> digestNc = 0, sent = [unauthenticatedPost rt_stub cfg_admin ?b] \<rparr>)"
    using execute_correlates [OF p [of "[pkt_c]"], of "[resp_c]"] l
    by (simp add: parseRaw_def parse_examples resp_c_def)
  have c3: "execute rt_stub cfg_admin (srv_reply (responseEnvelope [pkt_error])) ''c0ffee'' st_fresh reqs_one
     = (Inl (JsonPtsPacketError resp_error),
        \<lparr> digestNc = 0, sent = [unauthenticatedPost rt_stub cfg_admin ?b] \<rparr>)"
    using execute_correlates [OF p [of "[pkt_error]"], of "[resp_error]"] l
    by (simp add: parseRaw_def parse_examples resp_error_def)
  have c4: "execute rt_stub cfg_admin srv_digest ''c0ffee'' st_fresh reqs_one
     = (Inr [resp_datetime],
        \<lparr> digestNc = 1,
          sent = [unauthenticatedPost rt_stub cfg_admin ?b,
                  digestRetry rt_stub cfg_admin ''c0ffee'' ch_digest 1 ?b] \<rparr>)"
    using execute_correlates [OF post_srv_digest [of ?b], of "[resp_datetime]"] l
    by (simp add: parseRaw_def parse_examples resp_datetime_def)
  from c1 c2 c3 c4 show ?thesis by simp
qed

theorem setDateTime_true_witness:
  "setDateTime rt_stub cfg_admin (srv_reply (responseEnvelope [pkt_datetime])) ''c0ffee'' st_fresh params_now
     = (Inr True,
        \<lparr> digestNc = 0,
          sent = [unauthenticatedPost rt_stub cfg_admin
                    (buildEnvelope [\<lparr> type_q = ''SetDateTime'', data_q = Some (setDateTimeData params_now) \<rparr>])] \<rparr>)"
proof -
  let ?req = "[\<lparr> type_q = ''SetDateTime'', data_q = Some (setDateTimeData params_now) \<rparr>]"
  let ?srv = "srv_reply (responseEnvelope [pkt_datetime])"
  let ?s = "\<lparr> digestNc = 0, sent = [unauthenticatedPost rt_stub cfg_admin (buildEnvelope ?req)] \<rparr>"
  have e: "execute rt_stub cfg_admin ?srv ''c0ffee'' st_fresh ?req = (Inr [resp_datetime], ?s)"
    by (simp add: execute_def post_srv_reply no_flag_responseEnvelope parseRaw_def parse_examples
        resp_datetime_def)
  then obtain b where r: "setDateTime rt_stub cfg_admin ?srv ''c0ffee'' st_fresh params_now = (Inr b, ?s)"
    by (simp add: setDateTime_def)
  from setDateTime_true [OF r] r show ?thesis by simp
qed

end
